theory Spec2Isabelle
  imports Main "HOL-Library.Char_ord" "HOL-Library.List_Lexorder" "HOL-Library.Multiset"
begin

section \<open>Appointment scheduling: the store and the engine\<close>

text \<open>
  The development embeds \<^verbatim>\<open>src/database/db_manager.py\<close> (class DatabaseManager) and
  \<^verbatim>\<open>src/scheduling/appointment.py\<close> (class AppointmentManager).

  Modelling decisions, each visible in the definitions below:
  \<^item> Python strings are HOL strings; a character is a code point below 256.
  \<^item> The SQLite table \<^verbatim>\<open>appointments\<close> is the list of its rows in insertion order. The
    statements of the source always run to completion here: the branch
    \<^verbatim>\<open>except sqlite3.Error\<close> (an input/output failure of the database file) has no
    counterpart, the store is a value.
  \<^item> \<^verbatim>\<open>datetime.now()\<close> is the parameter \<open>now\<close> and SQLite's
    \<^verbatim>\<open>CURRENT_TIMESTAMP\<close> is the parameter \<open>ts\<close>; one engine operation reads one value
    of each.
  \<^item> \<^verbatim>\<open>datetime\<close> is a record of its seven fields. The library functions the source
    calls (\<^verbatim>\<open>strptime\<close>, \<^verbatim>\<open>strftime\<close>, \<^verbatim>\<open>weekday\<close>, comparison, adding a
    \<^verbatim>\<open>timedelta\<close>) are written out for the formats and the deltas the source uses,
    following CPython: a result after year 9999 is \<open>OverflowError\<close>, a string that does
    not match the format or names no calendar day is \<open>ValueError\<close>.
\<close>

subsection \<open>Exceptions\<close>

datatype error = ValueError | OverflowError

subsection \<open>The datetime type of the standard library\<close>

record datetime =
  year :: nat
  month :: nat
  day :: nat
  hour :: nat
  minute :: nat
  second :: nat
  microsecond :: nat

definition is_leap :: "nat \<Rightarrow> bool" where
  "is_leap y = (y mod 4 = 0 \<and> (y mod 100 \<noteq> 0 \<or> y mod 400 = 0))"

definition days_in_month :: "nat \<Rightarrow> nat \<Rightarrow> nat" where
  "days_in_month y m =
     (if m = 2 then (if is_leap y then 29 else 28)
      else if m = 4 \<or> m = 6 \<or> m = 9 \<or> m = 11 then 30 else 31)"

definition days_before_year :: "nat \<Rightarrow> nat" where
  "days_before_year y =
     (let p = y - 1 in p * 365 + p div 4 - p div 100 + p div 400)"

text \<open>The table \<^verbatim>\<open>_DAYS_BEFORE_MONTH\<close>, indexed by the month from 1 to 12.\<close>

definition days_before_month_table :: "nat \<Rightarrow> nat" where
  "days_before_month_table m =
     (if m = 2 then 31 else if m = 3 then 59 else if m = 4 then 90
      else if m = 5 then 120 else if m = 6 then 151 else if m = 7 then 181
      else if m = 8 then 212 else if m = 9 then 243 else if m = 10 then 273
      else if m = 11 then 304 else if m = 12 then 334 else 0)"

definition days_before_month :: "nat \<Rightarrow> nat \<Rightarrow> nat" where
  "days_before_month y m =
     days_before_month_table m + (if 2 < m \<and> is_leap y then 1 else 0)"

definition ymd2ord :: "nat \<Rightarrow> nat \<Rightarrow> nat \<Rightarrow> nat" where
  "ymd2ord y m d = days_before_year y + days_before_month y m + d"

text \<open>\<^verbatim>\<open>datetime.weekday()\<close>: Monday is 0, Saturday 5, Sunday 6.\<close>

definition weekday :: "datetime \<Rightarrow> nat" where
  "weekday dt = (ymd2ord (year dt) (month dt) (day dt) + 6) mod 7"

text \<open>A datetime that the constructor of the library accepts.\<close>

definition valid_dt :: "datetime \<Rightarrow> bool" where
  "valid_dt dt =
     (1 \<le> year dt \<and> year dt \<le> 9999 \<and> 1 \<le> month dt \<and> month dt \<le> 12 \<and>
      1 \<le> day dt \<and> day dt \<le> days_in_month (year dt) (month dt) \<and>
      hour dt < 24 \<and> minute dt < 60 \<and> second dt < 60 \<and> microsecond dt < 1000000)"

text \<open>Comparison of two datetimes compares the seven fields in order.\<close>

definition dt_fields :: "datetime \<Rightarrow> nat list" where
  "dt_fields dt =
     [year dt, month dt, day dt, hour dt, minute dt, second dt, microsecond dt]"

definition dt_less :: "datetime \<Rightarrow> datetime \<Rightarrow> bool" where
  "dt_less a b = (dt_fields a < dt_fields b)"

text \<open>\<^verbatim>\<open>dt + timedelta(days=1)\<close>: the same time of day on the next calendar day.\<close>

definition next_day :: "datetime \<Rightarrow> error + datetime" where
  "next_day dt =
     (if day dt < days_in_month (year dt) (month dt) then Inr (dt\<lparr>day := day dt + 1\<rparr>)
      else if month dt < 12 then Inr (dt\<lparr>month := month dt + 1, day := 1\<rparr>)
      else if year dt < 9999 then Inr (dt\<lparr>year := year dt + 1, month := 1, day := 1\<rparr>)
      else Inl OverflowError)"

text \<open>
  \<^verbatim>\<open>dt + timedelta(minutes=n)\<close> for a delta of at most one day: the source adds 30
  minutes (the appointment duration) and 60 minutes (the notice).
\<close>

definition add_minutes :: "nat \<Rightarrow> datetime \<Rightarrow> error + datetime" where
  "add_minutes n dt =
     (let total = hour dt * 60 + minute dt + n in
      if total < 1440 then Inr (dt\<lparr>hour := total div 60, minute := total mod 60\<rparr>)
      else (case next_day dt of
              Inl e \<Rightarrow> Inl e
            | Inr d \<Rightarrow> Inr (d\<lparr>hour := (total - 1440) div 60,
                              minute := (total - 1440) mod 60\<rparr>)))"

text \<open>\<^verbatim>\<open>datetime.combine(dt.date(), time(h, 0))\<close>.\<close>

definition combine :: "datetime \<Rightarrow> nat \<Rightarrow> datetime" where
  "combine d h = d\<lparr>hour := h, minute := 0, second := 0, microsecond := 0\<rparr>"

subsection \<open>strftime\<close>

definition digit_char :: "nat \<Rightarrow> char" where
  "digit_char n = char_of (48 + n)"

definition pad2 :: "nat \<Rightarrow> string" where
  "pad2 n = [digit_char (n div 10 mod 10), digit_char (n mod 10)]"

definition pad4 :: "nat \<Rightarrow> string" where
  "pad4 n = pad2 (n div 100) @ pad2 (n mod 100)"

text \<open>
  \<^verbatim>\<open>dt.strftime('%Y-%m-%d')\<close> and \<^verbatim>\<open>dt.strftime('%H:%M')\<close>. Every field is
  zero-padded, the year to four digits as the library documents it (a C library that
  leaves a year below 1000 unpadded is outside the model).
\<close>

definition strftime_date :: "datetime \<Rightarrow> string" where
  "strftime_date dt = pad4 (year dt) @ ''-'' @ pad2 (month dt) @ ''-'' @ pad2 (day dt)"

definition strftime_time :: "datetime \<Rightarrow> string" where
  "strftime_time dt = pad2 (hour dt) @ '':'' @ pad2 (minute dt)"

subsection \<open>strptime\<close>

text \<open>
  \<^verbatim>\<open>datetime.strptime\<close> compiles the format into a regular expression, takes the first
  match in the order of a backtracking matcher, raises when characters are left over,
  and builds the datetime, which raises when the day does not exist. A directive is a
  function that tries its alternatives in order and hands the number it read and the
  rest of the string to its continuation; the first alternative whose continuation
  succeeds wins.
  \<^verbatim>\<open>
  %Y  \d\d\d\d
  %m  1[0-2]|0[1-9]|[1-9]
  %d  3[0-1]|[1-2]\d|0[1-9]|[1-9]| [1-9]
  %H  2[0-3]|[0-1]\d|\d
  %M  [0-5]\d|\d
  ' ' \s+
  \<close>
\<close>

definition digit_val :: "char \<Rightarrow> nat option" where
  "digit_val c =
     (let n = (of_char c :: nat) in if 48 \<le> n \<and> n \<le> 57 then Some (n - 48) else None)"

definition is_space :: "char \<Rightarrow> bool" where
  "is_space c = ((of_char c :: nat) \<in> {9, 10, 11, 12, 13, 28, 29, 30, 31, 32, 133, 160})"

definition orelse :: "'a option \<Rightarrow> 'a option \<Rightarrow> 'a option" where
  "orelse a b = (case a of Some x \<Rightarrow> Some x | None \<Rightarrow> b)"

definition one_digit ::
  "(nat \<Rightarrow> bool) \<Rightarrow> string \<Rightarrow> (nat \<Rightarrow> string \<Rightarrow> 'a option) \<Rightarrow> 'a option" where
  "one_digit p s k =
     (case s of
        c # r \<Rightarrow> (case digit_val c of
                    Some a \<Rightarrow> if p a then k a r else None
                  | None \<Rightarrow> None)
      | [] \<Rightarrow> None)"

definition two_digits ::
  "(nat \<Rightarrow> bool) \<Rightarrow> (nat \<Rightarrow> bool) \<Rightarrow> string \<Rightarrow> (nat \<Rightarrow> string \<Rightarrow> 'a option) \<Rightarrow> 'a option"
  where
  "two_digits p q s k = one_digit p s (\<lambda>a r. one_digit q r (\<lambda>b. k (10 * a + b)))"

definition lit :: "char \<Rightarrow> string \<Rightarrow> (string \<Rightarrow> 'a option) \<Rightarrow> 'a option" where
  "lit x s k = (case s of c # r \<Rightarrow> if c = x then k r else None | [] \<Rightarrow> None)"

fun spaces1 :: "string \<Rightarrow> (string \<Rightarrow> 'a option) \<Rightarrow> 'a option" where
  "spaces1 [] k = None"
| "spaces1 (c # r) k = (if is_space c then orelse (spaces1 r k) (k r) else None)"

definition dir_Y :: "string \<Rightarrow> (nat \<Rightarrow> string \<Rightarrow> 'a option) \<Rightarrow> 'a option" where
  "dir_Y s k =
     two_digits (\<lambda>_. True) (\<lambda>_. True) s
       (\<lambda>hi r. two_digits (\<lambda>_. True) (\<lambda>_. True) r (\<lambda>lo. k (100 * hi + lo)))"

definition dir_m :: "string \<Rightarrow> (nat \<Rightarrow> string \<Rightarrow> 'a option) \<Rightarrow> 'a option" where
  "dir_m s k =
     orelse (two_digits (\<lambda>a. a = 1) (\<lambda>b. b \<le> 2) s k)
    (orelse (two_digits (\<lambda>a. a = 0) (\<lambda>b. 1 \<le> b) s k)
            (one_digit (\<lambda>a. 1 \<le> a) s k))"

definition dir_d :: "string \<Rightarrow> (nat \<Rightarrow> string \<Rightarrow> 'a option) \<Rightarrow> 'a option" where
  "dir_d s k =
     orelse (two_digits (\<lambda>a. a = 3) (\<lambda>b. b \<le> 1) s k)
    (orelse (two_digits (\<lambda>a. a = 1 \<or> a = 2) (\<lambda>_. True) s k)
    (orelse (two_digits (\<lambda>a. a = 0) (\<lambda>b. 1 \<le> b) s k)
    (orelse (one_digit (\<lambda>a. 1 \<le> a) s k)
            (lit CHR '' '' s (\<lambda>r. one_digit (\<lambda>a. 1 \<le> a) r k)))))"

definition dir_H :: "string \<Rightarrow> (nat \<Rightarrow> string \<Rightarrow> 'a option) \<Rightarrow> 'a option" where
  "dir_H s k =
     orelse (two_digits (\<lambda>a. a = 2) (\<lambda>b. b \<le> 3) s k)
    (orelse (two_digits (\<lambda>a. a \<le> 1) (\<lambda>_. True) s k)
            (one_digit (\<lambda>_. True) s k))"

definition dir_M :: "string \<Rightarrow> (nat \<Rightarrow> string \<Rightarrow> 'a option) \<Rightarrow> 'a option" where
  "dir_M s k =
     orelse (two_digits (\<lambda>a. a \<le> 5) (\<lambda>_. True) s k)
            (one_digit (\<lambda>_. True) s k)"

text \<open>The constructor \<^verbatim>\<open>datetime(y, m, d, H, M)\<close> that ends \<^verbatim>\<open>strptime\<close>.\<close>

definition make_datetime :: "nat \<Rightarrow> nat \<Rightarrow> nat \<Rightarrow> nat \<Rightarrow> nat \<Rightarrow> error + datetime" where
  "make_datetime y m d h mi =
     (let dt = \<lparr>year = y, month = m, day = d, hour = h, minute = mi,
                second = 0, microsecond = 0\<rparr>
      in if valid_dt dt then Inr dt else Inl ValueError)"

text \<open>\<^verbatim>\<open>datetime.strptime(s, '%Y-%m-%d %H:%M')\<close>.\<close>

definition match_datetime :: "string \<Rightarrow> ((nat \<times> nat \<times> nat \<times> nat \<times> nat) \<times> string) option" where
  "match_datetime s =
     dir_Y s (\<lambda>y s1. lit CHR ''-'' s1 (\<lambda>s2. dir_m s2 (\<lambda>m s3. lit CHR ''-'' s3
       (\<lambda>s4. dir_d s4 (\<lambda>d s5. spaces1 s5 (\<lambda>s6. dir_H s6 (\<lambda>h s7. lit CHR '':'' s7
         (\<lambda>s8. dir_M s8 (\<lambda>mi s9. Some ((y, m, d, h, mi), s9))))))))))"

definition strptime_datetime :: "string \<Rightarrow> error + datetime" where
  "strptime_datetime s =
     (case match_datetime s of
        None \<Rightarrow> Inl ValueError
      | Some ((y, m, d, h, mi), rest) \<Rightarrow>
          if rest \<noteq> [] then Inl ValueError else make_datetime y m d h mi)"

text \<open>\<^verbatim>\<open>datetime.strptime(s, '%Y-%m-%d')\<close>: midnight of the day.\<close>

definition match_date :: "string \<Rightarrow> ((nat \<times> nat \<times> nat) \<times> string) option" where
  "match_date s =
     dir_Y s (\<lambda>y s1. lit CHR ''-'' s1 (\<lambda>s2. dir_m s2 (\<lambda>m s3. lit CHR ''-'' s3
       (\<lambda>s4. dir_d s4 (\<lambda>d s5. Some ((y, m, d), s5))))))"

definition strptime_date :: "string \<Rightarrow> error + datetime" where
  "strptime_date s =
     (case match_date s of
        None \<Rightarrow> Inl ValueError
      | Some ((y, m, d), rest) \<Rightarrow>
          if rest \<noteq> [] then Inl ValueError else make_datetime y m d 0 0)"

subsection \<open>The appointment store (DatabaseManager)\<close>

text \<open>One row of the table \<^verbatim>\<open>appointments\<close>; \<open>rowid\<close> is the column \<^verbatim>\<open>id\<close>.\<close>

record appointment =
  rowid :: nat
  date :: string
  time :: string
  doctor :: string
  patient_notes :: string
  status :: string
  created_at :: string
  updated_at :: string

type_synonym store = "appointment list"

text \<open>\<^verbatim>\<open>INTEGER PRIMARY KEY AUTOINCREMENT\<close>: one more than the largest id; no row is ever deleted.\<close>

definition next_rowid :: "store \<Rightarrow> nat" where
  "next_rowid st = fold max (map rowid st) 0 + 1"

text \<open>The condition \<^verbatim>\<open>WHERE date = ? AND time = ? AND status = 'scheduled'\<close>.\<close>

definition scheduled_at :: "string \<Rightarrow> string \<Rightarrow> appointment \<Rightarrow> bool" where
  "scheduled_at d t a = (date a = d \<and> time a = t \<and> status a = ''scheduled'')"

text \<open>
  \<^verbatim>\<open>add_appointment\<close>: an unconditional \<^verbatim>\<open>INSERT\<close>; the table declares no uniqueness
  constraint, so the statement succeeds whatever rows exist. The status and the two
  timestamps take their column defaults.
\<close>

definition db_add_appointment ::
  "string \<Rightarrow> store \<Rightarrow> string \<Rightarrow> string \<Rightarrow> string \<Rightarrow> string \<Rightarrow> bool \<times> store" where
  "db_add_appointment ts st d t doc notes =
     (True, st @ [\<lparr>rowid = next_rowid st, date = d, time = t, doctor = doc,
                   patient_notes = notes, status = ''scheduled'',
                   created_at = ts, updated_at = ts\<rparr>])"

text \<open>
  \<^verbatim>\<open>get_appointments\<close>: \<^verbatim>\<open>if date:\<close> is false for \<^verbatim>\<open>None\<close> and for the empty string.
  \<^verbatim>\<open>ORDER BY\<close> compares text byte by byte; \<open>today\<close> is SQLite's \<^verbatim>\<open>date('now')\<close>.
\<close>

definition db_get_appointments :: "string \<Rightarrow> store \<Rightarrow> string option \<Rightarrow> appointment list" where
  "db_get_appointments today st dopt =
     (case dopt of
        Some d \<Rightarrow>
          if d \<noteq> [] then
            sort_key time (filter (\<lambda>a. date a = d \<and> status a = ''scheduled'') st)
          else
            sort_key date (sort_key time
              (filter (\<lambda>a. today \<le> date a \<and> status a = ''scheduled'') st))
      | None \<Rightarrow>
          sort_key date (sort_key time
            (filter (\<lambda>a. today \<le> date a \<and> status a = ''scheduled'') st)))"

text \<open>
  \<^verbatim>\<open>cancel_appointment\<close>: an \<^verbatim>\<open>UPDATE\<close> of every row that meets the condition,
  committed when the \<^verbatim>\<open>with\<close> block of the connection is left; success is
  \<^verbatim>\<open>cursor.rowcount > 0\<close>.
\<close>

definition db_cancel_appointment :: "string \<Rightarrow> store \<Rightarrow> string \<Rightarrow> string \<Rightarrow> bool \<times> store" where
  "db_cancel_appointment ts st d t =
     (let rowcount = length (filter (scheduled_at d t) st) in
      (0 < rowcount,
       map (\<lambda>a. if scheduled_at d t a
                 then a\<lparr>status := ''cancelled'', updated_at := ts\<rparr> else a) st))"

text \<open>\<^verbatim>\<open>check_availability\<close>: \<^verbatim>\<open>SELECT COUNT(*)\<close>, available when the count is 0.\<close>

definition db_check_availability :: "store \<Rightarrow> string \<Rightarrow> string \<Rightarrow> bool" where
  "db_check_availability st d t =
     (let count = length (filter (scheduled_at d t) st) in count = 0)"

text \<open>\<^verbatim>\<open>update_appointment_notes\<close>: the same \<^verbatim>\<open>UPDATE\<close> pattern, on the notes.\<close>

definition db_update_appointment_notes ::
  "string \<Rightarrow> store \<Rightarrow> string \<Rightarrow> string \<Rightarrow> string \<Rightarrow> bool \<times> store" where
  "db_update_appointment_notes ts st d t notes =
     (let rowcount = length (filter (scheduled_at d t) st) in
      (0 < rowcount,
       map (\<lambda>a. if scheduled_at d t a
                 then a\<lparr>patient_notes := notes, updated_at := ts\<rparr> else a) st))"

subsection \<open>The scheduling engine (AppointmentManager)\<close>

definition WORKING_HOURS_START :: nat where "WORKING_HOURS_START = 9"
definition WORKING_HOURS_END :: nat where "WORKING_HOURS_END = 17"
definition APPOINTMENT_DURATION :: nat where "APPOINTMENT_DURATION = 30"
definition MIN_SCHEDULE_NOTICE :: nat where "MIN_SCHEDULE_NOTICE = 1"

text \<open>
  \<^verbatim>\<open>_is_valid_datetime\<close>. Only \<^verbatim>\<open>ValueError\<close> is caught, so the \<open>OverflowError\<close> of
  \<^verbatim>\<open>now + timedelta(hours=1)\<close> leaves the function as an exception.
\<close>

definition is_valid_datetime :: "datetime \<Rightarrow> string \<Rightarrow> string \<Rightarrow> error + bool" where
  "is_valid_datetime now d t =
     (case strptime_datetime (d @ '' '' @ t) of
        Inl e \<Rightarrow> Inr False
      | Inr appointment_dt \<Rightarrow>
          (case add_minutes (60 * MIN_SCHEDULE_NOTICE) now of
             Inl e \<Rightarrow> Inl e
           | Inr notice \<Rightarrow>
               if dt_less appointment_dt notice then Inr False
               else if hour appointment_dt < WORKING_HOURS_START
                       \<or> WORKING_HOURS_END \<le> hour appointment_dt then Inr False
               else if 5 \<le> weekday appointment_dt then Inr False
               else Inr True))"

text \<open>\<^verbatim>\<open>is_available\<close>: any exception is caught and answered with \<^verbatim>\<open>False\<close>.\<close>

definition is_available :: "datetime \<Rightarrow> store \<Rightarrow> string \<Rightarrow> string \<Rightarrow> bool" where
  "is_available now st d t =
     (case is_valid_datetime now d t of
        Inl e \<Rightarrow> False
      | Inr valid \<Rightarrow> if \<not> valid then False else db_check_availability st d t)"

definition schedule_appointment ::
  "datetime \<Rightarrow> string \<Rightarrow> store \<Rightarrow> string \<Rightarrow> string \<Rightarrow> string \<Rightarrow> string
     \<Rightarrow> (bool \<times> string) \<times> store" where
  "schedule_appointment now ts st d t doc notes =
     (case is_valid_datetime now d t of
        Inl e \<Rightarrow> ((False, ''An error occurred while scheduling the appointment''), st)
      | Inr valid \<Rightarrow>
          if \<not> valid then ((False, ''Invalid appointment date or time''), st)
          else if \<not> is_available now st d t
          then ((False, ''This time slot is not available''), st)
          else (case db_add_appointment ts st d t doc notes of
                  (success, st') \<Rightarrow>
                    if success then ((True, ''Appointment scheduled successfully''), st')
                    else ((False, ''Failed to schedule appointment''), st')))"

definition cancel_appointment ::
  "string \<Rightarrow> store \<Rightarrow> string \<Rightarrow> string \<Rightarrow> (bool \<times> string) \<times> store" where
  "cancel_appointment ts st d t =
     (case db_cancel_appointment ts st d t of
        (success, st') \<Rightarrow>
          if success then ((True, ''Appointment cancelled successfully''), st')
          else ((False, ''No appointment found for the specified time''), st'))"

definition get_appointments :: "string \<Rightarrow> store \<Rightarrow> string option \<Rightarrow> appointment list" where
  "get_appointments today st dopt = db_get_appointments today st dopt"

definition update_appointment_notes ::
  "string \<Rightarrow> store \<Rightarrow> string \<Rightarrow> string \<Rightarrow> string \<Rightarrow> (bool \<times> string) \<times> store" where
  "update_appointment_notes ts st d t notes =
     (case db_update_appointment_notes ts st d t notes of
        (success, st') \<Rightarrow>
          if success then ((True, ''Appointment notes updated successfully''), st')
          else ((False, ''No appointment found for the specified time''), st'))"

text \<open>
  Every loop of the engine moves a datetime forward and stops at the latest when the
  calendar ends. The four components below, compared lexicographically, decrease with
  every such move: years, months and days left, and minutes left in the day.
\<close>

definition dt_left :: "datetime \<Rightarrow> nat \<times> nat \<times> nat \<times> nat" where
  "dt_left c = (9999 - year c, 12 - month c, 31 - day c, 1440 - (hour c * 60 + minute c))"

definition dt_later :: "(datetime \<times> datetime) set" where
  "dt_later =
     inv_image (less_than <*lex*> less_than <*lex*> less_than <*lex*> less_than) dt_left"

lemma wf_dt_later: "wf dt_later"
  unfolding dt_later_def by (intro wf_inv_image wf_lex_prod wf_less_than)

lemma trans_dt_later: "trans dt_later"
  unfolding dt_later_def by (intro trans_inv_image trans_lex_prod trans_less_than)

lemma days_in_month_le: "days_in_month y m \<le> 31"
  by (simp add: days_in_month_def)

lemma next_day_later:
  assumes "next_day c = Inr d" "year c' = year d" "month c' = month d" "day c' = day d"
  shows "(c', c) \<in> dt_later"
  using assms days_in_month_le [of "year c" "month c"]
  by (auto simp: next_day_def dt_later_def dt_left_def split: if_splits)

lemma add_minutes_later:
  assumes "0 < n" "add_minutes n c = Inr c'"
  shows "(c', c) \<in> dt_later"
proof (cases "hour c * 60 + minute c + n < 1440")
  case True
  with assms have "c' = c\<lparr>hour := (hour c * 60 + minute c + n) div 60,
                          minute := (hour c * 60 + minute c + n) mod 60\<rparr>"
    by (simp add: add_minutes_def Let_def)
  with True assms(1) show ?thesis
    by (simp add: dt_later_def dt_left_def)
next
  case False
  with assms obtain d where d: "next_day c = Inr d"
    and c': "c' = d\<lparr>hour := (hour c * 60 + minute c + n - 1440) div 60,
                     minute := (hour c * 60 + minute c + n - 1440) mod 60\<rparr>"
    by (auto simp: add_minutes_def Let_def split: sum.splits)
  show ?thesis
    by (rule next_day_later [OF d]) (simp_all add: c')
qed

text \<open>
  \<^verbatim>\<open>datetime.strptime(f"{h}:00", '%H:%M')\<close> for an hour \<open>h\<close> below 24: the date
  defaults to 1900-01-01.
\<close>

definition hour_of_day :: "nat \<Rightarrow> datetime" where
  "hour_of_day h = \<lparr>year = 1900, month = 1, day = 1, hour = h, minute = 0,
                    second = 0, microsecond = 0\<rparr>"

text \<open>The inner loop of \<^verbatim>\<open>get_next_available_slot\<close>: the times of one day.\<close>

function scan_times ::
  "datetime \<Rightarrow> store \<Rightarrow> string \<Rightarrow> datetime \<Rightarrow> error + (string \<times> string) option" where
  "scan_times now st date_str current_time =
     (if dt_less current_time (hour_of_day WORKING_HOURS_END) then
        (let time_str = strftime_time current_time in
         if is_available now st date_str time_str then Inr (Some (date_str, time_str))
         else (case add_minutes APPOINTMENT_DURATION current_time of
                 Inl e \<Rightarrow> Inl e
               | Inr next_time \<Rightarrow> scan_times now st date_str next_time))
      else Inr None)"
  by pat_completeness auto
termination
proof (relation "inv_image dt_later (\<lambda>(now, st, date_str, current_time). current_time)")
  show "wf (inv_image dt_later (\<lambda>(now, st, date_str, current_time). current_time))"
    by (intro wf_inv_image wf_dt_later)
next
  fix now :: datetime and st :: store and date_str :: string
    and current_time time_str next_time
  assume "add_minutes APPOINTMENT_DURATION current_time = Inr next_time"
  then have "(next_time, current_time) \<in> dt_later"
    by (intro add_minutes_later [of APPOINTMENT_DURATION]) (simp_all add: APPOINTMENT_DURATION_def)
  then show "((now, st, date_str, next_time), (now, st, date_str, current_time))
      \<in> inv_image dt_later (\<lambda>(now, st, date_str, current_time). current_time)"
    by simp
qed

declare scan_times.simps [simp del]

text \<open>The loop \<^verbatim>\<open>for _ in range(30)\<close>: the counter is the number of days still to scan.\<close>

fun scan_days ::
  "nat \<Rightarrow> datetime \<Rightarrow> store \<Rightarrow> datetime \<Rightarrow> error + (string \<times> string) option" where
  "scan_days 0 now st current_date = Inr None"
| "scan_days (Suc n) now st current_date =
     (case scan_times now st (strftime_date current_date) (hour_of_day WORKING_HOURS_START) of
        Inl e \<Rightarrow> Inl e
      | Inr (Some slot) \<Rightarrow> Inr (Some slot)
      | Inr None \<Rightarrow>
          (case next_day current_date of
             Inl e \<Rightarrow> Inl e
           | Inr tomorrow \<Rightarrow> scan_days n now st tomorrow))"

text \<open>\<^verbatim>\<open>get_next_available_slot\<close>: any exception is caught and answered with \<^verbatim>\<open>None\<close>.\<close>

definition get_next_available_slot ::
  "datetime \<Rightarrow> store \<Rightarrow> string option \<Rightarrow> (string \<times> string) option" where
  "get_next_available_slot now st dopt =
     (let d = (case dopt of
                 None \<Rightarrow> strftime_date now
               | Some d \<Rightarrow> if d = [] then strftime_date now else d)
      in case strptime_date d of
           Inl e \<Rightarrow> None
         | Inr current_date \<Rightarrow>
             (case scan_days 30 now st current_date of
                Inl e \<Rightarrow> None
              | Inr found \<Rightarrow> found))"

text \<open>
  The loop \<^verbatim>\<open>while current_dt.weekday() >= 5\<close> of \<^verbatim>\<open>suggest_alternative_slots\<close>.
\<close>

function skip_weekend :: "datetime \<Rightarrow> error + datetime" where
  "skip_weekend current_dt =
     (if 5 \<le> weekday current_dt then
        (case next_day current_dt of
           Inl e \<Rightarrow> Inl e
         | Inr d \<Rightarrow> skip_weekend (combine d WORKING_HOURS_START))
      else Inr current_dt)"
  by pat_completeness auto
termination
proof (relation dt_later)
  show "wf dt_later" by (rule wf_dt_later)
next
  fix current_dt d
  assume "next_day current_dt = Inr d"
  then show "(combine d WORKING_HOURS_START, current_dt) \<in> dt_later"
    by (rule next_day_later) (simp_all add: combine_def)
qed

declare skip_weekend.simps [simp del]

text \<open>
  One pass through the body of the outer loop up to the availability test: the next
  candidate after \<open>current_dt\<close>.
\<close>

definition next_candidate :: "datetime \<Rightarrow> error + datetime" where
  "next_candidate current_dt =
     (case add_minutes APPOINTMENT_DURATION current_dt of
        Inl e \<Rightarrow> Inl e
      | Inr c1 \<Rightarrow>
          (case (if WORKING_HOURS_END \<le> hour c1
                 then (case next_day c1 of
                         Inl e \<Rightarrow> Inl e
                       | Inr d \<Rightarrow> Inr (combine d WORKING_HOURS_START))
                 else Inr c1) of
             Inl e \<Rightarrow> Inl e
           | Inr c2 \<Rightarrow> skip_weekend c2))"

lemma skip_weekend_later:
  "skip_weekend c = Inr c' \<Longrightarrow> c' = c \<or> (c', c) \<in> dt_later"
proof (induction c rule: skip_weekend.induct)
  case (1 c)
  show ?case
  proof (cases "5 \<le> weekday c")
    case False
    with "1.prems" show ?thesis by (simp add: skip_weekend.simps [of c])
  next
    case True
    with "1.prems" obtain d where d: "next_day c = Inr d"
      and r: "skip_weekend (combine d WORKING_HOURS_START) = Inr c'"
      by (auto simp: skip_weekend.simps [of c] split: sum.splits)
    have step: "(combine d WORKING_HOURS_START, c) \<in> dt_later"
      by (rule next_day_later [OF d]) (simp_all add: combine_def)
    from "1.IH" [OF True d r] step show ?thesis
      using trans_dt_later by (auto dest: transD)
  qed
qed

lemma next_candidate_later:
  assumes "next_candidate c = Inr c'"
  shows "(c', c) \<in> dt_later"
proof -
  from assms obtain c1 c2 where c1: "add_minutes APPOINTMENT_DURATION c = Inr c1"
    and c2: "(if WORKING_HOURS_END \<le> hour c1
              then (case next_day c1 of Inl e \<Rightarrow> Inl e
                    | Inr d \<Rightarrow> Inr (combine d WORKING_HOURS_START))
              else Inr c1) = Inr c2"
    and c': "skip_weekend c2 = Inr c'"
    by (auto simp: next_candidate_def split: sum.splits)
  have s1: "(c1, c) \<in> dt_later"
    by (rule add_minutes_later [OF _ c1]) (simp add: APPOINTMENT_DURATION_def)
  have s2: "c2 = c1 \<or> (c2, c1) \<in> dt_later"
  proof (cases "WORKING_HOURS_END \<le> hour c1")
    case False
    with c2 show ?thesis by simp
  next
    case True
    with c2 obtain d where d: "next_day c1 = Inr d" and e: "c2 = combine d WORKING_HOURS_START"
      by (auto split: sum.splits)
    have "(c2, c1) \<in> dt_later"
      by (rule next_day_later [OF d]) (simp_all add: e combine_def)
    then show ?thesis ..
  qed
  from skip_weekend_later [OF c'] s1 s2 show ?thesis
    using trans_dt_later by (auto dest: transD)
qed

text \<open>
  The outer loop of \<^verbatim>\<open>suggest_alternative_slots\<close>. A suggestion is the pair of the two
  strings of the dictionary. \<open>examined\<close> is not a variable of the source: it counts
  the passes through the loop body and is returned beside the suggestions.
\<close>

function suggest_loop ::
  "datetime \<Rightarrow> store \<Rightarrow> int \<Rightarrow> datetime \<Rightarrow> (string \<times> string) list \<Rightarrow> nat
     \<Rightarrow> error + ((string \<times> string) list \<times> nat)" where
  "suggest_loop now st num_suggestions current_dt suggestions examined =
     (if int (length suggestions) < num_suggestions \<and> length suggestions < 10 then
        (case next_candidate current_dt of
           Inl e \<Rightarrow> Inl e
         | Inr c \<Rightarrow>
             (let current_date = strftime_date c; current_time = strftime_time c in
              if is_available now st current_date current_time
              then suggest_loop now st num_suggestions c
                     (suggestions @ [(current_date, current_time)]) (examined + 1)
              else suggest_loop now st num_suggestions c suggestions (examined + 1)))
      else Inr (suggestions, examined))"
  by pat_completeness auto
termination
proof (relation "inv_image dt_later (\<lambda>(now, st, num, current_dt, suggestions, examined). current_dt)")
  show "wf (inv_image dt_later
          (\<lambda>(now, st, num, current_dt, suggestions, examined). current_dt))"
    by (intro wf_inv_image wf_dt_later)
qed (simp_all add: next_candidate_later)

declare suggest_loop.simps [simp del]

text \<open>
  \<^verbatim>\<open>suggest_alternative_slots\<close>: any exception, of the parse or inside the loop, is
  caught and answered with the empty list.
\<close>

definition suggest_alternative_slots ::
  "datetime \<Rightarrow> store \<Rightarrow> string \<Rightarrow> string \<Rightarrow> int \<Rightarrow> (string \<times> string) list" where
  "suggest_alternative_slots now st d t num_suggestions =
     (case strptime_datetime (d @ '' '' @ t) of
        Inl e \<Rightarrow> []
      | Inr preferred_dt \<Rightarrow>
          (case suggest_loop now st num_suggestions preferred_dt [] 0 of
             Inl e \<Rightarrow> []
           | Inr (suggestions, examined) \<Rightarrow> suggestions))"

text \<open>The number of passes through the loop body in the same call.\<close>

definition suggest_examined :: "datetime \<Rightarrow> store \<Rightarrow> string \<Rightarrow> string \<Rightarrow> int \<Rightarrow> nat option" where
  "suggest_examined now st d t num_suggestions =
     (case strptime_datetime (d @ '' '' @ t) of
        Inl e \<Rightarrow> None
      | Inr preferred_dt \<Rightarrow>
          (case suggest_loop now st num_suggestions preferred_dt [] 0 of
             Inl e \<Rightarrow> None
           | Inr (suggestions, examined) \<Rightarrow> Some examined))"

section \<open>Vocabulary of the specification\<close>

subsection \<open>Slots and the instants they denote\<close>

text \<open>A datetime of the calendar with no seconds, as \<^verbatim>\<open>strptime\<close> returns it for both formats.\<close>

definition on_the_minute :: "datetime \<Rightarrow> bool" where
  "on_the_minute c = (valid_dt c \<and> second c = 0 \<and> microsecond c = 0)"

text \<open>
  The pair of strings written for an instant: the suggestion the loop appends for a
  candidate, and the form in which every caller of the repository passes a date and a
  time (\<^verbatim>\<open>strftime('%Y-%m-%d')\<close>, \<^verbatim>\<open>strftime('%H:%M')\<close>).
\<close>

definition slot_of :: "datetime \<Rightarrow> string \<times> string" where
  "slot_of c = (strftime_date c, strftime_time c)"

text \<open>The instant a pair of strings denotes, as \<^verbatim>\<open>_is_valid_datetime\<close> reads it.\<close>

definition slot_instant :: "string \<times> string \<Rightarrow> error + datetime" where
  "slot_instant p = strptime_datetime (fst p @ '' '' @ snd p)"

definition working_slot :: "string \<times> string \<Rightarrow> bool" where
  "working_slot p =
     (case slot_instant p of
        Inl e \<Rightarrow> False
      | Inr dt \<Rightarrow> WORKING_HOURS_START \<le> hour dt \<and> hour dt < WORKING_HOURS_END
                  \<and> weekday dt < 5)"

definition slot_before :: "string \<times> string \<Rightarrow> string \<times> string \<Rightarrow> bool" where
  "slot_before p q =
     (case slot_instant p of
        Inl e \<Rightarrow> False
      | Inr a \<Rightarrow> (case slot_instant q of Inl e \<Rightarrow> False | Inr b \<Rightarrow> dt_less a b))"

definition slot_not_after :: "string \<times> string \<Rightarrow> string \<times> string \<Rightarrow> bool" where
  "slot_not_after p q =
     (case slot_instant p of
        Inl e \<Rightarrow> False
      | Inr a \<Rightarrow> (case slot_instant q of Inl e \<Rightarrow> False | Inr b \<Rightarrow> \<not> dt_less b a))"

text \<open>
  A pair in canonical form: it parses, and it is spelled as \<^verbatim>\<open>strftime\<close> spells the
  instant it denotes. \<^verbatim>\<open>('2025-01-06', '09:00')\<close> is canonical; \<^verbatim>\<open>('2025-01-06', '9:00')\<close>
  and \<^verbatim>\<open>('2025-1-6', '09:00')\<close> denote the same instant and are not.
\<close>

definition canonical_slot :: "string \<times> string \<Rightarrow> bool" where
  "canonical_slot p = (case slot_instant p of Inl e \<Rightarrow> False | Inr c \<Rightarrow> p = slot_of c)"

text \<open>A date string in canonical form, and the pairs that denote an instant of its day.\<close>

definition canonical_date :: "string \<Rightarrow> bool" where
  "canonical_date d = (case strptime_date d of Inl e \<Rightarrow> False | Inr c \<Rightarrow> d = strftime_date c)"

definition slot_on_day :: "string \<Rightarrow> string \<times> string \<Rightarrow> bool" where
  "slot_on_day d p =
     (case strptime_date d of
        Inl e \<Rightarrow> False
      | Inr c0 \<Rightarrow>
          (case slot_instant p of
             Inl e \<Rightarrow> False
           | Inr c \<Rightarrow> year c = year c0 \<and> month c = month c0 \<and> day c = day c0))"

text \<open>The day of a datetime, at 00:00: what \<^verbatim>\<open>strptime\<close> returns for the date alone.\<close>

definition midnight :: "datetime \<Rightarrow> datetime" where
  "midnight c = c\<lparr>hour := 0, minute := 0, second := 0, microsecond := 0\<rparr>"

subsection \<open>The published invariant\<close>

text \<open>The date and time strings of the scheduled rows, in the order of the table.\<close>

definition scheduled_slots :: "store \<Rightarrow> (string \<times> string) list" where
  "scheduled_slots st =
     map (\<lambda>a. (date a, time a)) (filter (\<lambda>a. status a = ''scheduled'') st)"

text \<open>
  The invariant of the specification: at most one scheduled appointment for a calendar
  date and time of day, that is, the scheduled rows denote pairwise different instants.
\<close>

definition instant_unique :: "store \<Rightarrow> bool" where
  "instant_unique st = distinct (map slot_instant (scheduled_slots st))"

text \<open>
  What the store can tell apart: the pairs of stored strings of the scheduled rows are
  pairwise different as text. Two spellings of one instant are two pairs.
\<close>

definition pair_unique :: "store \<Rightarrow> bool" where
  "pair_unique st = distinct (scheduled_slots st)"

text \<open>All scheduled rows are stored in canonical form.\<close>

definition canonical_store :: "store \<Rightarrow> bool" where
  "canonical_store st = list_all canonical_slot (scheduled_slots st)"

text \<open>A scheduled row that denotes the instant of the pair \<open>(d, t)\<close>.\<close>

definition scheduled_at_instant :: "string \<Rightarrow> string \<Rightarrow> appointment \<Rightarrow> bool" where
  "scheduled_at_instant d t a =
     (status a = ''scheduled'' \<and> slot_instant (date a, time a) = slot_instant (d, t))"

subsection \<open>The candidates of the suggestion loop\<close>

text \<open>
  All candidates the loop of \<^verbatim>\<open>suggest_alternative_slots\<close> can reach from a datetime, in
  the order in which it examines them; the list ends where the calendar ends.
\<close>

function all_candidates :: "datetime \<Rightarrow> datetime list" where
  "all_candidates c =
     (case next_candidate c of Inl e \<Rightarrow> [] | Inr c' \<Rightarrow> c' # all_candidates c')"
  by pat_completeness auto
termination
  by (relation dt_later) (simp_all add: wf_dt_later next_candidate_later)

declare all_candidates.simps [simp del]

subsection \<open>The scan order of the search for the next slot\<close>

text \<open>
  The scan order in the words of the specification: the minutes of the day from the
  start of the working hours in steps of the appointment duration, up to but excluding
  the end of the working hours.
\<close>

function times_from :: "nat \<Rightarrow> nat list" where
  "times_from m =
     (if m < WORKING_HOURS_END * 60 then m # times_from (m + APPOINTMENT_DURATION) else [])"
  by pat_completeness auto
termination
  by (relation "measure (\<lambda>m. WORKING_HOURS_END * 60 - m)")
     (simp_all add: WORKING_HOURS_END_def APPOINTMENT_DURATION_def)

declare times_from.simps [simp del]

definition time_string :: "nat \<Rightarrow> string" where
  "time_string m = pad2 (m div 60) @ '':'' @ pad2 (m mod 60)"

text \<open>The calendar days from a day on, at most \<open>n\<close> of them, ending with the calendar.\<close>

fun days_from :: "nat \<Rightarrow> datetime \<Rightarrow> datetime list" where
  "days_from 0 d = []"
| "days_from (Suc n) d =
     d # (case next_day d of Inl e \<Rightarrow> [] | Inr tomorrow \<Rightarrow> days_from n tomorrow)"

definition scan_order :: "nat \<Rightarrow> datetime \<Rightarrow> (string \<times> string) list" where
  "scan_order n d =
     concat (map (\<lambda>day. map (\<lambda>m. (strftime_date day, time_string m))
                           (times_from (WORKING_HOURS_START * 60)))
                 (days_from n d))"

definition minute_of_day :: "nat \<Rightarrow> datetime" where
  "minute_of_day m = \<lparr>year = 1900, month = 1, day = 1, hour = m div 60, minute = m mod 60,
                      second = 0, microsecond = 0\<rparr>"

subsection \<open>Example data\<close>

text \<open>A clock reading, Wednesday 2025-01-01 at midnight, and a row of the table.\<close>

definition example_now :: datetime where
  "example_now = \<lparr>year = 2025, month = 1, day = 1, hour = 0, minute = 0,
                   second = 0, microsecond = 0\<rparr>"

definition example_row :: "nat \<Rightarrow> string \<Rightarrow> string \<Rightarrow> string \<Rightarrow> appointment" where
  "example_row i d t s = \<lparr>rowid = i, date = d, time = t, doctor = ''Dr. Smith'',
     patient_notes = '''', status = s, created_at = ''2025-01-01 08:00:00'',
     updated_at = ''2025-01-01 08:00:00''\<rparr>"

text \<open>A store in which Monday 2025-01-06 09:00 is taken.\<close>

definition example_occupied :: store where
  "example_occupied = [example_row 1 ''2025-01-06'' ''09:00'' ''scheduled'']"

text \<open>
  A day with two appointments and a cancelled one, and a day booked with a time that
  is not zero-padded.
\<close>

definition example_day :: store where
  "example_day =
     [example_row 1 ''2025-01-06'' ''10:30'' ''scheduled'',
      example_row 2 ''2025-01-06'' ''09:30'' ''cancelled'',
      example_row 3 ''2025-01-07'' ''09:00'' ''scheduled'',
      example_row 4 ''2025-01-06'' ''09:00'' ''scheduled'']"

definition example_respelled :: store where
  "example_respelled =
     [example_row 1 ''2025-01-06'' ''9:30'' ''scheduled'',
      example_row 2 ''2025-01-06'' ''11:00'' ''scheduled'']"

section \<open>Evaluation on concrete inputs\<close>

lemma digit_char_eval:
  "digit_char 0 = CHR ''0''" "digit_char 1 = CHR ''1''" "digit_char (Suc 0) = CHR ''1''"
  "digit_char 2 = CHR ''2''" "digit_char 3 = CHR ''3''" "digit_char 4 = CHR ''4''"
  "digit_char 5 = CHR ''5''" "digit_char 6 = CHR ''6''" "digit_char 7 = CHR ''7''"
  "digit_char 8 = CHR ''8''" "digit_char 9 = CHR ''9''"
  by (simp_all add: digit_char_def char_of_def bit_Suc_0_iff)

lemmas cal_defs = weekday_def ymd2ord_def days_before_year_def days_before_month_def
  days_before_month_table_def days_in_month_def is_leap_def valid_dt_def
  next_day_def add_minutes_def combine_def dt_less_def dt_fields_def

lemmas fmt_defs = strftime_date_def strftime_time_def pad2_def pad4_def digit_char_eval

lemmas parse_defs = strptime_datetime_def match_datetime_def strptime_date_def match_date_def
  dir_Y_def dir_m_def dir_d_def dir_H_def dir_M_def two_digits_def one_digit_def lit_def
  orelse_def digit_val_def is_space_def make_datetime_def

lemmas cfg_defs = WORKING_HOURS_START_def WORKING_HOURS_END_def APPOINTMENT_DURATION_def
  MIN_SCHEDULE_NOTICE_def

lemmas engine_defs = is_valid_datetime_def is_available_def db_check_availability_def
  scheduled_at_def next_candidate_def hour_of_day_def

lemmas slot_defs = slot_instant_def slot_of_def canonical_slot_def canonical_store_def
  canonical_date_def slot_on_day_def scheduled_slots_def instant_unique_def pair_unique_def
  scheduled_at_instant_def slot_not_after_def

section \<open>The calendar\<close>

text \<open>
  The next calendar day, as \<open>next_day\<close> writes it out, is the day with the next
  ordinal of \<^verbatim>\<open>toordinal\<close>, so the weekday advances by one.
\<close>

lemma days_before_year_Suc:
  assumes "1 \<le> y"
  shows "days_before_year (y + 1) = days_before_year y + (if is_leap y then 366 else 365)"
proof -
  obtain p where y: "y = Suc p" using assms by (cases y) auto
  have le: "p div 100 \<le> p div 4" by (rule div_le_mono2) simp_all
  have d4: "Suc p div 4 = (if 4 dvd Suc p then Suc (p div 4) else p div 4)"
    by (simp add: div_Suc mod_eq_0_iff_dvd)
  have d100: "Suc p div 100 = (if 100 dvd Suc p then Suc (p div 100) else p div 100)"
    by (simp add: div_Suc mod_eq_0_iff_dvd)
  have d400: "Suc p div 400 = (if 400 dvd Suc p then Suc (p div 400) else p div 400)"
    by (simp add: div_Suc mod_eq_0_iff_dvd)
  have i1: "100 dvd Suc p \<Longrightarrow> 4 dvd Suc p" by (rule dvd_trans [of 4 100]) simp_all
  have i2: "400 dvd Suc p \<Longrightarrow> 100 dvd Suc p" by (rule dvd_trans [of 100 400]) simp_all
  have leap: "is_leap (Suc p) \<longleftrightarrow> 4 dvd Suc p \<and> (\<not> 100 dvd Suc p \<or> 400 dvd Suc p)"
    by (simp add: is_leap_def mod_eq_0_iff_dvd)
  define a where "a = p div 4"
  define b where "b = p div 100"
  define e where "e = p div 400"
  have ba: "b \<le> a" using le by (simp add: a_def b_def)
  have l: "days_before_year (Suc p) = p * 365 + a - b + e"
    by (simp add: days_before_year_def a_def b_def e_def)
  have r: "days_before_year (Suc p + 1)
      = Suc p * 365 + (if 4 dvd Suc p then Suc a else a)
          - (if 100 dvd Suc p then Suc b else b) + (if 400 dvd Suc p then Suc e else e)"
  proof -
    have "days_before_year (Suc p + 1)
        = Suc p * 365 + Suc p div 4 - Suc p div 100 + Suc p div 400"
      by (simp add: days_before_year_def)
    then show ?thesis
      unfolding d4 d100 d400 a_def b_def e_def .
  qed
  show ?thesis
    unfolding y l r leap using ba i1 i2 by auto
qed

lemma days_before_month_Suc:
  assumes "1 \<le> m" "m < 12"
  shows "days_before_month y (m + 1) = days_before_month y m + days_in_month y m"
proof -
  from assms have "m = 1 \<or> m = 2 \<or> m = 3 \<or> m = 4 \<or> m = 5 \<or> m = 6 \<or> m = 7 \<or> m = 8
      \<or> m = 9 \<or> m = 10 \<or> m = 11"
    by presburger
  then show ?thesis
    by (elim disjE)
       (simp_all add: days_before_month_def days_before_month_table_def days_in_month_def)
qed

lemma ymd2ord_next_day:
  assumes "valid_dt c" "next_day c = Inr d"
  shows "ymd2ord (year d) (month d) (day d) = ymd2ord (year c) (month c) (day c) + 1"
proof (cases "day c < days_in_month (year c) (month c)")
  case True
  with assms(2) show ?thesis by (auto simp: next_day_def ymd2ord_def)
next
  case False
  with assms(1) have dim: "day c = days_in_month (year c) (month c)"
    by (simp add: valid_dt_def)
  show ?thesis
  proof (cases "month c < 12")
    case True
    with False assms(2) have d: "d = c\<lparr>month := month c + 1, day := 1\<rparr>"
      by (simp add: next_day_def)
    from assms(1) have "1 \<le> month c" by (simp add: valid_dt_def)
    from days_before_month_Suc [OF this True, of "year c"] show ?thesis
      by (simp add: d dim ymd2ord_def)
  next
    case m: False
    with assms(1) have m12: "month c = 12" by (simp add: valid_dt_def)
    from False m assms(2) have d: "d = c\<lparr>year := year c + 1, month := 1, day := 1\<rparr>"
      by (auto simp: next_day_def split: if_splits)
    from assms(1) have "1 \<le> year c" by (simp add: valid_dt_def)
    from days_before_year_Suc [OF this] show ?thesis
      by (simp add: d dim m12 ymd2ord_def days_before_month_def days_before_month_table_def
          days_in_month_def)
  qed
qed

lemma weekday_next_day:
  assumes "valid_dt c" "next_day c = Inr d"
  shows "weekday d = (weekday c + 1) mod 7"
  unfolding weekday_def ymd2ord_next_day [OF assms] by (simp add: mod_simps)

section \<open>Formatting and parsing\<close>

text \<open>What \<^verbatim>\<open>strftime\<close> writes, \<^verbatim>\<open>strptime\<close> reads back.\<close>

lemma digit_val_digit_char: "n < 10 \<Longrightarrow> digit_val (digit_char n) = Some n"
  by (simp add: digit_val_def digit_char_def)

lemma not_space_digit_char: "n < 10 \<Longrightarrow> \<not> is_space (digit_char n)"
  by (simp add: is_space_def digit_char_def)

lemma two_digits_pad2:
  "n < 100 \<Longrightarrow> two_digits p q (pad2 n @ rest) k =
     (if p (n div 10) \<and> q (n mod 10) then k n rest else None)"
  by (simp add: two_digits_def one_digit_def pad2_def digit_val_digit_char)

lemma dir_Y_pad4: "y < 10000 \<Longrightarrow> dir_Y (pad4 y @ rest) k = k y rest"
  by (simp add: dir_Y_def pad4_def two_digits_pad2)

lemma dir_m_pad2:
  assumes "1 \<le> m" "m \<le> 12" "k m rest = Some r"
  shows "dir_m (pad2 m @ rest) k = Some r"
proof -
  have "m div 10 = 1 \<and> m mod 10 \<le> 2 \<or> m div 10 = 0 \<and> 1 \<le> m mod 10"
    using assms(1,2) by arith
  then show ?thesis
    using assms by (auto simp: dir_m_def two_digits_pad2 orelse_def)
qed

lemma dir_d_pad2:
  assumes "1 \<le> d" "d \<le> 31" "k d rest = Some r"
  shows "dir_d (pad2 d @ rest) k = Some r"
proof -
  have "d div 10 = 3 \<and> d mod 10 \<le> 1 \<or> (d div 10 = 1 \<or> d div 10 = 2)
      \<or> d div 10 = 0 \<and> 1 \<le> d mod 10"
    using assms(1,2) by arith
  then show ?thesis
    using assms by (auto simp: dir_d_def two_digits_pad2 orelse_def)
qed

lemma dir_H_pad2:
  assumes "h < 24" "k h rest = Some r"
  shows "dir_H (pad2 h @ rest) k = Some r"
proof -
  have "h div 10 = 2 \<and> h mod 10 \<le> 3 \<or> h div 10 \<le> 1"
    using assms(1) by arith
  then show ?thesis
    using assms by (auto simp: dir_H_def two_digits_pad2 orelse_def)
qed

lemma dir_M_pad2:
  assumes "mi < 60" "k mi rest = Some r"
  shows "dir_M (pad2 mi @ rest) k = Some r"
proof -
  have "mi div 10 \<le> 5"
    using assms(1) by arith
  then show ?thesis
    using assms by (auto simp: dir_M_def two_digits_pad2 orelse_def)
qed

lemma lit_Cons: "lit c (c # rest) k = k rest"
  by (simp add: lit_def)

lemma spaces1_single:
  assumes "h < 100"
  shows "spaces1 (CHR '' '' # pad2 h @ rest) k = k (pad2 h @ rest)"
proof -
  have sp: "is_space CHR '' ''" by (simp add: is_space_def)
  have "\<not> is_space (digit_char (h div 10 mod 10))"
    by (rule not_space_digit_char) simp
  then have "spaces1 (pad2 h @ rest) k = None"
    by (simp add: pad2_def)
  with sp show ?thesis by (simp add: orelse_def)
qed

lemma match_datetime_strftime:
  assumes "y < 10000" "1 \<le> m" "m \<le> 12" "1 \<le> d" "d \<le> 31" "h < 24" "mi < 60"
  shows "match_datetime (pad4 y @ CHR ''-'' # pad2 m @ CHR ''-'' # pad2 d @ CHR '' '' #
           pad2 h @ CHR '':'' # pad2 mi @ []) = Some ((y, m, d, h, mi), [])"
  unfolding match_datetime_def
  apply (simp only: dir_Y_pad4 [OF assms(1)] lit_Cons)
  apply (rule dir_m_pad2 [OF assms(2,3)])
  apply (simp only: lit_Cons)
  apply (rule dir_d_pad2 [OF assms(4,5)])
  using assms(6) apply (simp only: spaces1_single)
  apply (rule dir_H_pad2 [OF assms(6)])
  apply (simp only: lit_Cons)
  apply (rule dir_M_pad2 [OF assms(7)])
  apply (rule refl)
  done

lemma strptime_strftime:
  assumes "on_the_minute c"
  shows "strptime_datetime (strftime_date c @ '' '' @ strftime_time c) = Inr c"
proof -
  have v: "valid_dt c" and s: "second c = 0" "microsecond c = 0"
    using assms by (simp_all add: on_the_minute_def)
  have b: "year c < 10000" "1 \<le> month c" "month c \<le> 12" "1 \<le> day c" "day c \<le> 31"
    "hour c < 24" "minute c < 60"
    using v days_in_month_le [of "year c" "month c"] by (simp_all add: valid_dt_def)
  have e: "strftime_date c @ '' '' @ strftime_time c
      = pad4 (year c) @ CHR ''-'' # pad2 (month c) @ CHR ''-'' # pad2 (day c) @ CHR '' '' #
           pad2 (hour c) @ CHR '':'' # pad2 (minute c) @ []"
    by (simp add: strftime_date_def strftime_time_def)
  show ?thesis
    unfolding strptime_datetime_def e match_datetime_strftime [OF b]
    using v s by (cases c) (simp add: make_datetime_def Let_def)
qed

lemma strptime_on_the_minute: "strptime_datetime s = Inr c \<Longrightarrow> on_the_minute c"
  by (auto simp: strptime_datetime_def make_datetime_def Let_def on_the_minute_def
      split: option.splits prod.splits if_splits)

lemma slot_instant_slot_of: "on_the_minute c \<Longrightarrow> slot_instant (slot_of c) = Inr c"
  using strptime_strftime [of c] by (simp add: slot_instant_def slot_of_def)

lemma match_date_strftime:
  assumes "y < 10000" "1 \<le> m" "m \<le> 12" "1 \<le> d" "d \<le> 31"
  shows "match_date (pad4 y @ CHR ''-'' # pad2 m @ CHR ''-'' # pad2 d @ [])
           = Some ((y, m, d), [])"
  unfolding match_date_def
  apply (simp only: dir_Y_pad4 [OF assms(1)] lit_Cons)
  apply (rule dir_m_pad2 [OF assms(2,3)])
  apply (simp only: lit_Cons)
  apply (rule dir_d_pad2 [OF assms(4,5)])
  apply (rule refl)
  done

lemma strptime_date_strftime:
  assumes "valid_dt c"
  shows "strptime_date (strftime_date c) = Inr (midnight c)"
proof -
  have b: "year c < 10000" "1 \<le> month c" "month c \<le> 12" "1 \<le> day c" "day c \<le> 31"
    using assms days_in_month_le [of "year c" "month c"] by (simp_all add: valid_dt_def)
  have e: "strftime_date c
      = pad4 (year c) @ CHR ''-'' # pad2 (month c) @ CHR ''-'' # pad2 (day c) @ []"
    by (simp add: strftime_date_def)
  show ?thesis
    unfolding strptime_date_def e match_date_strftime [OF b]
    using assms by (cases c) (simp add: make_datetime_def Let_def midnight_def valid_dt_def)
qed

lemma strftime_date_same_day:
  assumes "valid_dt a" "valid_dt b"
  shows "strftime_date a = strftime_date b
     \<longleftrightarrow> year a = year b \<and> month a = month b \<and> day a = day b"
proof
  assume "strftime_date a = strftime_date b"
  then have "strptime_date (strftime_date a) = strptime_date (strftime_date b)" by simp
  then have "midnight a = midnight b"
    by (simp add: strptime_date_strftime assms)
  then show "year a = year b \<and> month a = month b \<and> day a = day b"
    by (cases a, cases b) (simp add: midnight_def)
next
  assume "year a = year b \<and> month a = month b \<and> day a = day b"
  then show "strftime_date a = strftime_date b" by (simp add: strftime_date_def)
qed

lemma of_char_digit_char: "n < 10 \<Longrightarrow> (of_char (digit_char n) :: nat) = 48 + n"
  by (simp add: digit_char_def)

lemma digit_char_less:
  assumes "a < 10" "b < 10"
  shows "digit_char a < digit_char b \<longleftrightarrow> a < b"
proof -
  have "digit_char a < digit_char b
      \<longleftrightarrow> (of_char (digit_char a) :: nat) < of_char (digit_char b)"
    by (rule less_char_def)
  also have "\<dots> \<longleftrightarrow> 48 + a < 48 + b"
    by (simp only: of_char_digit_char assms)
  also have "\<dots> \<longleftrightarrow> a < b" by simp
  finally show ?thesis .
qed

lemma digit_char_eq:
  assumes "a < 10" "b < 10"
  shows "digit_char a = digit_char b \<longleftrightarrow> a = b"
proof
  assume "digit_char a = digit_char b"
  then have "digit_val (digit_char a) = digit_val (digit_char b)" by (rule arg_cong)
  then show "a = b" by (simp only: digit_val_digit_char assms option.inject)
next
  assume "a = b"
  then show "digit_char a = digit_char b" by (rule arg_cong)
qed

lemma pad2_digits:
  assumes "a < 10" "b < 10"
  shows "pad2 (10 * a + b) = [digit_char a, digit_char b]"
  using assms by (simp add: pad2_def)

lemma pad2_le:
  assumes "n < 100" "n' < 100"
  shows "pad2 n @ r \<le> pad2 n' @ r' \<longleftrightarrow> n < n' \<or> n = n' \<and> r \<le> r'"
proof -
  define a where "a = n div 10"
  define b where "b = n mod 10"
  define a' where "a' = n' div 10"
  define b' where "b' = n' mod 10"
  have n: "n = 10 * a + b" "n' = 10 * a' + b'" by (simp_all add: a_def b_def a'_def b'_def)
  have l: "a < 10" "b < 10" "a' < 10" "b' < 10"
    using assms by (simp_all add: a_def b_def a'_def b'_def)
  have "pad2 n @ r \<le> pad2 n' @ r'
      \<longleftrightarrow> a < a' \<or> a = a' \<and> (b < b' \<or> b = b' \<and> r \<le> r')"
    unfolding n by (simp add: pad2_digits l digit_char_less digit_char_eq)
  also have "\<dots> \<longleftrightarrow> n < n' \<or> n = n' \<and> r \<le> r'"
    unfolding n using l by auto
  finally show ?thesis .
qed

lemma strftime_time_le:
  assumes "valid_dt a" "valid_dt b" "strftime_time a \<le> strftime_time b"
  shows "hour a < hour b \<or> hour a = hour b \<and> minute a \<le> minute b"
proof -
  have bd: "hour a < 100" "hour b < 100" "minute a < 100" "minute b < 100"
    using assms(1,2) by (simp_all add: valid_dt_def)
  have "pad2 (hour a) @ (CHR '':'' # pad2 (minute a) @ [])
      \<le> pad2 (hour b) @ (CHR '':'' # pad2 (minute b) @ [])"
    using assms(3) by (simp add: strftime_time_def)
  then have "hour a < hour b \<or> hour a = hour b
      \<and> pad2 (minute a) @ [] \<le> pad2 (minute b) @ []"
    by (simp only: pad2_le [OF bd(1,2)] Cons_le_Cons) blast
  then show ?thesis
    by (simp only: pad2_le [OF bd(3,4)]) auto
qed

lemma strptime_date_valid: "strptime_date s = Inr c \<Longrightarrow> valid_dt c"
  by (auto simp: strptime_date_def make_datetime_def Let_def
      split: option.splits prod.splits if_splits)

text \<open>Pairs in canonical form are in one-to-one correspondence with the instants they denote.\<close>

lemma canonical_slotD:
  assumes "canonical_slot p"
  obtains c where "slot_instant p = Inr c" "p = slot_of c" "on_the_minute c"
proof -
  from assms obtain c where c: "slot_instant p = Inr c" "p = slot_of c"
    by (auto simp: canonical_slot_def split: sum.splits)
  from c(1) have "on_the_minute c"
    unfolding slot_instant_def by (rule strptime_on_the_minute)
  with c that show ?thesis by blast
qed

lemma canonical_slot_of: "on_the_minute c \<Longrightarrow> canonical_slot (slot_of c)"
  by (simp add: canonical_slot_def slot_instant_slot_of)

lemma canonical_slot_inj:
  assumes "canonical_slot p" "canonical_slot q" "slot_instant p = slot_instant q"
  shows "p = q"
proof -
  from assms(1) obtain c where c: "slot_instant p = Inr c" "p = slot_of c"
    by (rule canonical_slotD)
  from assms(2) obtain e where e: "slot_instant q = Inr e" "q = slot_of e"
    by (rule canonical_slotD)
  from assms(3) c(1) e(1) have "c = e" by simp
  with c(2) e(2) show ?thesis by simp
qed

lemma canonical_distinct_instants:
  assumes "list_all canonical_slot ps" "distinct ps"
  shows "distinct (map slot_instant ps)"
proof -
  have "inj_on slot_instant (set ps)"
  proof (rule inj_onI)
    fix p q assume "p \<in> set ps" "q \<in> set ps" "slot_instant p = slot_instant q"
    with assms(1) show "p = q"
      by (auto simp: list_all_iff intro: canonical_slot_inj)
  qed
  with assms(2) show ?thesis by (simp add: distinct_map)
qed

lemma canonical_instant_unique:
  "pair_unique st \<Longrightarrow> canonical_store st \<Longrightarrow> instant_unique st"
  by (simp add: pair_unique_def canonical_store_def instant_unique_def
      canonical_distinct_instants)

section \<open>The store\<close>

lemma key_scheduled_iff:
  "(d, t) \<in> (\<lambda>a. (date a, time a)) ` {x \<in> set st. status x = ''scheduled''}
     \<longleftrightarrow> (\<exists>a\<in>set st. scheduled_at d t a)"
  by (auto simp: scheduled_at_def image_iff)

text \<open>The invariant in the words of the specification: a count of at most one per key.\<close>

lemma pair_unique_count:
  "pair_unique st \<longleftrightarrow> (\<forall>d t. length (filter (scheduled_at d t) st) \<le> 1)"
proof (induction st)
  case Nil
  show ?case by (simp add: pair_unique_def scheduled_slots_def)
next
  case (Cons a st)
  have key: "(date a, time a) \<in> (\<lambda>a. (date a, time a)) ` {x \<in> set st. status x = ''scheduled''}
      \<longleftrightarrow> filter (scheduled_at (date a) (time a)) st \<noteq> []"
    by (simp only: key_scheduled_iff filter_empty_conv) blast
  show ?case
  proof (cases "status a = ''scheduled''")
    case False
    then have "\<And>d t. filter (scheduled_at d t) (a # st) = filter (scheduled_at d t) st"
      by (simp add: scheduled_at_def)
    with False Cons show ?thesis by (simp add: pair_unique_def scheduled_slots_def)
  next
    case True
    have "pair_unique (a # st) \<longleftrightarrow>
        filter (scheduled_at (date a) (time a)) st = [] \<and> pair_unique st"
      using True key by (simp add: pair_unique_def scheduled_slots_def)
    also have "\<dots> \<longleftrightarrow> (\<forall>d t. length (filter (scheduled_at d t) (a # st)) \<le> 1)"
    proof
      assume h: "filter (scheduled_at (date a) (time a)) st = [] \<and> pair_unique st"
      show "\<forall>d t. length (filter (scheduled_at d t) (a # st)) \<le> 1"
      proof (intro allI)
        fix d t
        show "length (filter (scheduled_at d t) (a # st)) \<le> 1"
        proof (cases "scheduled_at d t a")
          case True
          then have "d = date a" "t = time a" by (simp_all add: scheduled_at_def)
          with h True show ?thesis by simp
        next
          case False
          with h Cons show ?thesis by simp
        qed
      qed
    next
      assume h: "\<forall>d t. length (filter (scheduled_at d t) (a # st)) \<le> 1"
      have a: "scheduled_at (date a) (time a) a" using True by (simp add: scheduled_at_def)
      from h have "length (filter (scheduled_at (date a) (time a)) (a # st)) \<le> 1" by blast
      with a have e: "filter (scheduled_at (date a) (time a)) st = []" by simp
      have "\<forall>d t. length (filter (scheduled_at d t) st) \<le> 1"
      proof (intro allI)
        fix d t
        from h have "length (filter (scheduled_at d t) (a # st)) \<le> 1" by blast
        then show "length (filter (scheduled_at d t) st) \<le> 1"
          by (simp split: if_splits)
      qed
      with e Cons show "filter (scheduled_at (date a) (time a)) st = [] \<and> pair_unique st"
        by simp
    qed
    finally show ?thesis .
  qed
qed

lemma pair_unique_cancel:
  "pair_unique st \<Longrightarrow> pair_unique (snd (db_cancel_appointment ts st d t))"
proof -
  have "map (\<lambda>a. (date a, time a)) (filter (\<lambda>a. status a = ''scheduled'')
          (map (\<lambda>a. if scheduled_at d t a
                 then a\<lparr>status := ''cancelled'', updated_at := ts\<rparr> else a) st))
      = filter (\<lambda>k. k \<noteq> (d, t))
          (map (\<lambda>a. (date a, time a)) (filter (\<lambda>a. status a = ''scheduled'') st))"
    by (induction st) (auto simp: scheduled_at_def)
  then show "pair_unique st \<Longrightarrow> pair_unique (snd (db_cancel_appointment ts st d t))"
    by (simp add: pair_unique_def scheduled_slots_def db_cancel_appointment_def Let_def distinct_filter)
qed

lemma pair_unique_update:
  "pair_unique st \<Longrightarrow> pair_unique (snd (db_update_appointment_notes ts st d t notes))"
proof -
  have "map (\<lambda>a. (date a, time a)) (filter (\<lambda>a. status a = ''scheduled'')
          (map (\<lambda>a. if scheduled_at d t a
                 then a\<lparr>patient_notes := notes, updated_at := ts\<rparr> else a) st))
      = map (\<lambda>a. (date a, time a)) (filter (\<lambda>a. status a = ''scheduled'') st)"
    by (induction st) (auto simp: scheduled_at_def)
  then show "pair_unique st \<Longrightarrow> pair_unique (snd (db_update_appointment_notes ts st d t notes))"
    by (simp add: pair_unique_def scheduled_slots_def db_update_appointment_notes_def Let_def)
qed

lemma pair_unique_add:
  assumes "pair_unique st" "db_check_availability st d t"
  shows "pair_unique (snd (db_add_appointment ts st d t doc notes))"
proof -
  from assms(2) have "filter (scheduled_at d t) st = []"
    by (simp add: db_check_availability_def)
  then have "(d, t) \<notin> (\<lambda>a. (date a, time a)) ` {x \<in> set st. status x = ''scheduled''}"
    by (simp only: key_scheduled_iff filter_empty_conv) blast
  with assms(1) show ?thesis
    by (simp add: pair_unique_def scheduled_slots_def db_add_appointment_def)
qed

lemma schedule_store:
  "snd (schedule_appointment now ts st d t doc notes) =
     (if is_available now st d t then snd (db_add_appointment ts st d t doc notes) else st)"
  by (auto simp: schedule_appointment_def is_available_def db_add_appointment_def
      split: sum.splits if_splits)

lemma is_available_free: "is_available now st d t \<Longrightarrow> db_check_availability st d t"
  by (auto simp: is_available_def split: sum.splits if_splits)

lemma cancel_store:
  "snd (cancel_appointment ts st d t) = snd (db_cancel_appointment ts st d t)"
  by (simp add: cancel_appointment_def split: prod.splits)

lemma update_store:
  "snd (update_appointment_notes ts st d t notes)
     = snd (db_update_appointment_notes ts st d t notes)"
  by (simp add: update_appointment_notes_def split: prod.splits)

lemma scheduled_slots_add:
  "scheduled_slots (snd (db_add_appointment ts st d t doc notes)) = scheduled_slots st @ [(d, t)]"
  by (simp add: scheduled_slots_def db_add_appointment_def)

lemma scheduled_slots_cancel:
  "scheduled_slots (snd (db_cancel_appointment ts st d t))
     = filter (\<lambda>k. k \<noteq> (d, t)) (scheduled_slots st)"
  unfolding scheduled_slots_def db_cancel_appointment_def Let_def snd_conv
  by (induction st) (auto simp: scheduled_at_def)

lemma scheduled_slots_update:
  "scheduled_slots (snd (db_update_appointment_notes ts st d t notes)) = scheduled_slots st"
  unfolding scheduled_slots_def db_update_appointment_notes_def Let_def snd_conv
  by (induction st) (auto simp: scheduled_at_def)

lemma canonical_store_schedule:
  assumes "canonical_store st" "canonical_slot (d, t)"
  shows "canonical_store (snd (schedule_appointment now ts st d t doc notes))"
  using assms by (simp add: schedule_store canonical_store_def scheduled_slots_add)

lemma canonical_store_cancel:
  "canonical_store st \<Longrightarrow> canonical_store (snd (cancel_appointment ts st d t))"
  by (simp add: cancel_store canonical_store_def scheduled_slots_cancel list_all_iff)

lemma canonical_store_update:
  "canonical_store st \<Longrightarrow> canonical_store (snd (update_appointment_notes ts st d t notes))"
  by (simp add: update_store canonical_store_def scheduled_slots_update)

lemma scheduled_at_slots:
  "list_ex (scheduled_at d t) st \<longleftrightarrow> (d, t) \<in> set (scheduled_slots st)"
  by (auto simp: list_ex_iff scheduled_slots_def scheduled_at_def image_iff)

lemma scheduled_at_instant_slots:
  "list_ex (scheduled_at_instant d t) st
     \<longleftrightarrow> slot_instant (d, t) \<in> slot_instant ` set (scheduled_slots st)"
  by (auto simp: list_ex_iff scheduled_slots_def scheduled_at_instant_def image_iff)

lemma canonical_scheduled_at_iff:
  assumes "canonical_store st" "canonical_slot (d, t)"
  shows "list_ex (scheduled_at d t) st \<longleftrightarrow> list_ex (scheduled_at_instant d t) st"
proof
  assume "list_ex (scheduled_at d t) st"
  then show "list_ex (scheduled_at_instant d t) st"
    by (auto simp: scheduled_at_slots scheduled_at_instant_slots)
next
  assume "list_ex (scheduled_at_instant d t) st"
  then obtain p where p: "p \<in> set (scheduled_slots st)" "slot_instant p = slot_instant (d, t)"
    by (auto simp: scheduled_at_instant_slots)
  from p(1) assms(1) have "canonical_slot p"
    by (simp add: canonical_store_def list_all_iff)
  from canonical_slot_inj [OF this assms(2) p(2)] p(1)
  show "list_ex (scheduled_at d t) st" by (simp add: scheduled_at_slots)
qed

text \<open>
  C1, as amended. The store identifies a slot by the two stored strings. From a store
  in which the scheduled rows have pairwise different pairs of date and time strings,
  each of \<^verbatim>\<open>schedule_appointment\<close>, \<^verbatim>\<open>cancel_appointment\<close> and
  \<^verbatim>\<open>update_appointment_notes\<close> leads to such a store again, and
  \<^verbatim>\<open>schedule_appointment\<close> changes the store only when \<^verbatim>\<open>check_availability\<close> has
  reported the pair free. When moreover the scheduled rows and the request are in
  canonical form, the form of \<^verbatim>\<open>strftime\<close> that every caller in the repository
  passes, the store stays in canonical form and the scheduled rows denote pairwise
  different instants: at most one scheduled appointment per calendar date and time.
\<close>

theorem store_pairs_invariant_preserved:
  assumes "pair_unique st"
  shows "pair_unique (snd (schedule_appointment now ts st d t doc notes))
       \<and> pair_unique (snd (cancel_appointment ts st d t))
       \<and> pair_unique (snd (update_appointment_notes ts st d t notes))
       \<and> (snd (schedule_appointment now ts st d t doc notes) \<noteq> st
            \<longrightarrow> db_check_availability st d t)
       \<and> (canonical_store st \<and> canonical_slot (d, t) \<longrightarrow>
            canonical_store (snd (schedule_appointment now ts st d t doc notes))
            \<and> instant_unique (snd (schedule_appointment now ts st d t doc notes)))
       \<and> (canonical_store st \<longrightarrow>
            canonical_store (snd (cancel_appointment ts st d t))
            \<and> instant_unique (snd (cancel_appointment ts st d t))
            \<and> canonical_store (snd (update_appointment_notes ts st d t notes))
            \<and> instant_unique (snd (update_appointment_notes ts st d t notes)))"
proof -
  have a: "pair_unique (snd (schedule_appointment now ts st d t doc notes))"
  proof (cases "is_available now st d t")
    case True
    with assms show ?thesis
      by (simp add: schedule_store pair_unique_add is_available_free)
  next
    case False
    with assms show ?thesis by (simp add: schedule_store)
  qed
  have b: "pair_unique (snd (cancel_appointment ts st d t))"
    using pair_unique_cancel [OF assms] by (simp add: cancel_store)
  have c: "pair_unique (snd (update_appointment_notes ts st d t notes))"
    using pair_unique_update [OF assms] by (simp add: update_store)
  have e: "snd (schedule_appointment now ts st d t doc notes) \<noteq> st
            \<longrightarrow> db_check_availability st d t"
    by (auto simp: schedule_store is_available_free split: if_splits)
  have f: "canonical_store st \<and> canonical_slot (d, t) \<longrightarrow>
            canonical_store (snd (schedule_appointment now ts st d t doc notes))
            \<and> instant_unique (snd (schedule_appointment now ts st d t doc notes))"
    using a by (auto intro: canonical_store_schedule canonical_instant_unique)
  have g: "canonical_store st \<longrightarrow>
            canonical_store (snd (cancel_appointment ts st d t))
            \<and> instant_unique (snd (cancel_appointment ts st d t))
            \<and> canonical_store (snd (update_appointment_notes ts st d t notes))
            \<and> instant_unique (snd (update_appointment_notes ts st d t notes))"
    using b c by (auto intro: canonical_store_cancel canonical_store_update
        canonical_instant_unique)
  from a b c e f g show ?thesis by blast
qed

theorem store_pairs_invariant_preserved_witness:
  "pair_unique example_occupied \<and> canonical_store example_occupied \<and>
   canonical_slot (''2025-01-06'', ''09:30'') \<and>
   scheduled_slots (snd (schedule_appointment example_now ''2025-01-01 08:30:00''
      example_occupied ''2025-01-06'' ''09:30'' ''Dr. Jones'' ''''))
     = [(''2025-01-06'', ''09:00''), (''2025-01-06'', ''09:30'')] \<and>
   pair_unique (snd (schedule_appointment example_now ''2025-01-01 08:30:00''
      example_occupied ''2025-01-06'' ''09:30'' ''Dr. Jones'' '''')) \<and>
   instant_unique (snd (schedule_appointment example_now ''2025-01-01 08:30:00''
      example_occupied ''2025-01-06'' ''09:30'' ''Dr. Jones'' '''')) \<and>
   db_check_availability example_occupied ''2025-01-06'' ''09:30''"
proof -
  have h: "pair_unique example_occupied"
    by (simp add: slot_defs example_occupied_def example_row_def)
  have cs: "canonical_store example_occupied"
    by (simp add: slot_defs example_occupied_def example_row_def parse_defs fmt_defs cal_defs)
  have cr: "canonical_slot (''2025-01-06'', ''09:30'')"
    by (simp add: slot_defs parse_defs fmt_defs cal_defs)
  have v: "scheduled_slots (snd (schedule_appointment example_now ''2025-01-01 08:30:00''
      example_occupied ''2025-01-06'' ''09:30'' ''Dr. Jones'' ''''))
     = [(''2025-01-06'', ''09:00''), (''2025-01-06'', ''09:30'')]"
    by (simp add: schedule_appointment_def db_add_appointment_def example_now_def
        example_occupied_def example_row_def scheduled_slots_def
        engine_defs cfg_defs parse_defs cal_defs)
  then have n: "snd (schedule_appointment example_now ''2025-01-01 08:30:00''
      example_occupied ''2025-01-06'' ''09:30'' ''Dr. Jones'' '''') \<noteq> example_occupied"
    by (auto simp: scheduled_slots_def example_occupied_def example_row_def)
  from store_pairs_invariant_preserved [OF h, of example_now "''2025-01-01 08:30:00''"
      "''2025-01-06''" "''09:30''" "''Dr. Jones''" "''''"] h cs cr v n
  show ?thesis by blast
qed

text \<open>
  C1 as stated fails for a respelled slot: with Monday 2025-01-06 09:00 booked, the
  request for the same day at \<^verbatim>\<open>9:00\<close> is valid, differs as text from \<^verbatim>\<open>09:00\<close>, and
  is booked; afterwards two scheduled rows denote the same instant.
\<close>

theorem respelled_slot_double_booking_counterexample:
  "pair_unique example_occupied \<and> instant_unique example_occupied \<and>
   is_valid_datetime example_now ''2025-01-06'' ''9:00'' = Inr True \<and>
   fst (schedule_appointment example_now ''2025-01-01 08:30:00''
      example_occupied ''2025-01-06'' ''9:00'' ''Dr. Jones'' '''')
     = (True, ''Appointment scheduled successfully'') \<and>
   scheduled_slots (snd (schedule_appointment example_now ''2025-01-01 08:30:00''
      example_occupied ''2025-01-06'' ''9:00'' ''Dr. Jones'' ''''))
     = [(''2025-01-06'', ''09:00''), (''2025-01-06'', ''9:00'')] \<and>
   slot_instant (''2025-01-06'', ''09:00'')
     = Inr \<lparr>year = 2025, month = 1, day = 6, hour = 9, minute = 0,
            second = 0, microsecond = 0\<rparr> \<and>
   slot_instant (''2025-01-06'', ''9:00'')
     = Inr \<lparr>year = 2025, month = 1, day = 6, hour = 9, minute = 0,
            second = 0, microsecond = 0\<rparr> \<and>
   \<not> instant_unique (snd (schedule_appointment example_now ''2025-01-01 08:30:00''
      example_occupied ''2025-01-06'' ''9:00'' ''Dr. Jones'' ''''))"
proof -
  have h: "pair_unique example_occupied" "instant_unique example_occupied"
    by (simp_all add: slot_defs example_occupied_def example_row_def)
  have v: "is_valid_datetime example_now ''2025-01-06'' ''9:00'' = Inr True"
    by (simp add: example_now_def engine_defs cfg_defs parse_defs cal_defs)
  have r: "fst (schedule_appointment example_now ''2025-01-01 08:30:00''
      example_occupied ''2025-01-06'' ''9:00'' ''Dr. Jones'' '''')
     = (True, ''Appointment scheduled successfully'')"
    by (simp add: schedule_appointment_def db_add_appointment_def example_now_def
        example_occupied_def example_row_def engine_defs cfg_defs parse_defs cal_defs)
  have s: "scheduled_slots (snd (schedule_appointment example_now ''2025-01-01 08:30:00''
      example_occupied ''2025-01-06'' ''9:00'' ''Dr. Jones'' ''''))
     = [(''2025-01-06'', ''09:00''), (''2025-01-06'', ''9:00'')]"
    by (simp add: schedule_appointment_def db_add_appointment_def example_now_def
        example_occupied_def example_row_def scheduled_slots_def
        engine_defs cfg_defs parse_defs cal_defs)
  have i1: "slot_instant (''2025-01-06'', ''09:00'')
     = Inr \<lparr>year = 2025, month = 1, day = 6, hour = 9, minute = 0,
            second = 0, microsecond = 0\<rparr>"
    by (simp add: slot_instant_def parse_defs cal_defs)
  have i2: "slot_instant (''2025-01-06'', ''9:00'')
     = Inr \<lparr>year = 2025, month = 1, day = 6, hour = 9, minute = 0,
            second = 0, microsecond = 0\<rparr>"
    by (simp add: slot_instant_def parse_defs cal_defs)
  have n: "\<not> instant_unique (snd (schedule_appointment example_now ''2025-01-01 08:30:00''
      example_occupied ''2025-01-06'' ''9:00'' ''Dr. Jones'' ''''))"
    unfolding instant_unique_def s by (simp add: i1 i2)
  from h v r s i1 i2 n show ?thesis by blast
qed

text \<open>
  C2, as amended. \<^verbatim>\<open>add_appointment\<close> makes no occupancy check: it reports success on
  every store and appends one scheduled row, so the number of scheduled rows at the
  date and time grows by one, also when one exists already.
\<close>

theorem add_appointment_unconditional:
  "fst (db_add_appointment ts st d t doc notes) = True \<and>
   butlast (snd (db_add_appointment ts st d t doc notes)) = st \<and>
   length (filter (scheduled_at d t) (snd (db_add_appointment ts st d t doc notes)))
     = length (filter (scheduled_at d t) st) + 1"
  by (simp add: db_add_appointment_def scheduled_at_def)

text \<open>
  C2 as stated fails: on a store that holds a scheduled row for 2025-01-06 09:00 the
  insert for the same date and time reports success, and two scheduled rows exist
  afterwards.
\<close>

theorem add_appointment_duplicate_counterexample:
  "length (filter (scheduled_at ''2025-01-06'' ''09:00'')
      [example_row 1 ''2025-01-06'' ''09:00'' ''scheduled'']) = 1 \<and>
   fst (db_add_appointment ''2025-01-01 08:30:00''
      [example_row 1 ''2025-01-06'' ''09:00'' ''scheduled'']
      ''2025-01-06'' ''09:00'' ''Dr. Jones'' '''') = True \<and>
   length (filter (scheduled_at ''2025-01-06'' ''09:00'')
      (snd (db_add_appointment ''2025-01-01 08:30:00''
        [example_row 1 ''2025-01-06'' ''09:00'' ''scheduled'']
        ''2025-01-06'' ''09:00'' ''Dr. Jones'' ''''))) = 2"
  by (simp add: db_add_appointment_def scheduled_at_def example_row_def)

lemma cancel_none_left:
  "filter (scheduled_at d t) (snd (db_cancel_appointment ts st d t)) = []"
  by (induction st) (auto simp: db_cancel_appointment_def Let_def scheduled_at_def)

lemma cancel_unchanged:
  "filter (scheduled_at d t) st = [] \<Longrightarrow> snd (db_cancel_appointment ts st d t) = st"
  by (induction st) (auto simp: db_cancel_appointment_def Let_def split: if_splits)

text \<open>
  C8, as amended. \<^verbatim>\<open>cancel_appointment\<close> finds the appointment by the stored strings.
  When a scheduled row with exactly this date string and time string exists, it
  succeeds; every such row gets the status \<^verbatim>\<open>cancelled\<close> and stays in the store, every
  other row is untouched. When none exists, it fails with the message
  \<^verbatim>\<open>No appointment found for the specified time\<close> and the store is unchanged. A second
  cancel with the same strings always fails. When the scheduled rows and the request
  are in canonical form, a scheduled row with these strings exists exactly when a
  scheduled appointment exists at the instant the request denotes, and after the cancel
  none is scheduled at that instant.
\<close>

theorem cancel_by_stored_text:
  "(list_ex (scheduled_at d t) st \<longrightarrow>
      fst (cancel_appointment ts st d t) = (True, ''Appointment cancelled successfully''))
   \<and> (\<not> list_ex (scheduled_at d t) st \<longrightarrow>
        cancel_appointment ts st d t
          = ((False, ''No appointment found for the specified time''), st))
   \<and> length (snd (cancel_appointment ts st d t)) = length st
   \<and> (\<forall>i<length st. snd (cancel_appointment ts st d t) ! i =
        (if scheduled_at d t (st ! i)
         then (st ! i)\<lparr>status := ''cancelled'', updated_at := ts\<rparr> else st ! i))
   \<and> cancel_appointment ts2 (snd (cancel_appointment ts st d t)) d t
        = ((False, ''No appointment found for the specified time''),
           snd (cancel_appointment ts st d t))
   \<and> (canonical_store st \<and> canonical_slot (d, t) \<longrightarrow>
        (list_ex (scheduled_at_instant d t) st \<longleftrightarrow> list_ex (scheduled_at d t) st)
        \<and> \<not> list_ex (scheduled_at_instant d t) (snd (cancel_appointment ts st d t)))"
proof -
  define st' where "st' = snd (cancel_appointment ts st d t)"
  have ex: "list_ex (scheduled_at d t) st \<longleftrightarrow> filter (scheduled_at d t) st \<noteq> []"
    by (simp add: list_ex_iff filter_empty_conv)
  have s: "st' = snd (db_cancel_appointment ts st d t)"
    by (simp add: st'_def cancel_store)
  have none: "filter (scheduled_at d t) st' = []"
    by (simp add: s cancel_none_left)
  have "cancel_appointment ts2 st' d t
            = ((False, ''No appointment found for the specified time''), st')"
    using none cancel_unchanged [OF none, of ts2]
    by (simp add: cancel_appointment_def db_cancel_appointment_def Let_def)
  moreover have "list_ex (scheduled_at d t) st \<longrightarrow>
            fst (cancel_appointment ts st d t) = (True, ''Appointment cancelled successfully'')"
    by (simp add: ex cancel_appointment_def db_cancel_appointment_def Let_def)
  moreover have "\<not> list_ex (scheduled_at d t) st \<longrightarrow>
            cancel_appointment ts st d t
              = ((False, ''No appointment found for the specified time''), st)"
    using cancel_unchanged [of d t st ts]
    by (simp add: ex cancel_appointment_def db_cancel_appointment_def Let_def)
  moreover have "length st' = length st"
    by (simp add: s db_cancel_appointment_def Let_def)
  moreover have "\<forall>i<length st. st' ! i =
            (if scheduled_at d t (st ! i)
             then (st ! i)\<lparr>status := ''cancelled'', updated_at := ts\<rparr> else st ! i)"
    by (simp add: s db_cancel_appointment_def Let_def)
  moreover have "canonical_store st \<and> canonical_slot (d, t) \<longrightarrow>
        (list_ex (scheduled_at_instant d t) st \<longleftrightarrow> list_ex (scheduled_at d t) st)
        \<and> \<not> list_ex (scheduled_at_instant d t) st'"
  proof (intro impI, elim conjE)
    assume c: "canonical_store st" "canonical_slot (d, t)"
    have c': "canonical_store st'"
      unfolding st'_def using c(1) by (rule canonical_store_cancel)
    have "\<not> list_ex (scheduled_at d t) st'"
      using none by (simp add: list_ex_iff filter_empty_conv)
    with canonical_scheduled_at_iff [OF c] canonical_scheduled_at_iff [OF c' c(2)]
    show "(list_ex (scheduled_at_instant d t) st \<longleftrightarrow> list_ex (scheduled_at d t) st)
        \<and> \<not> list_ex (scheduled_at_instant d t) st'"
      by blast
  qed
  ultimately show ?thesis unfolding st'_def by blast
qed

theorem cancel_by_stored_text_witness:
  "canonical_store example_occupied \<and> canonical_slot (''2025-01-06'', ''09:00'') \<and>
   list_ex (scheduled_at ''2025-01-06'' ''09:00'') example_occupied \<and>
   list_ex (scheduled_at_instant ''2025-01-06'' ''09:00'') example_occupied \<and>
   fst (cancel_appointment ''2025-01-02 10:00:00'' example_occupied ''2025-01-06'' ''09:00'')
     = (True, ''Appointment cancelled successfully'') \<and>
   \<not> list_ex (scheduled_at_instant ''2025-01-06'' ''09:00'')
       (snd (cancel_appointment ''2025-01-02 10:00:00'' example_occupied
              ''2025-01-06'' ''09:00'')) \<and>
   \<not> list_ex (scheduled_at ''2025-01-06'' ''11:00'') example_occupied \<and>
   cancel_appointment ''2025-01-02 10:00:00'' example_occupied ''2025-01-06'' ''11:00''
     = ((False, ''No appointment found for the specified time''), example_occupied)"
proof -
  have cs: "canonical_store example_occupied"
    by (simp add: slot_defs example_occupied_def example_row_def parse_defs fmt_defs cal_defs)
  have cr: "canonical_slot (''2025-01-06'', ''09:00'')"
    by (simp add: slot_defs parse_defs fmt_defs cal_defs)
  have h1: "list_ex (scheduled_at ''2025-01-06'' ''09:00'') example_occupied"
    by (simp add: scheduled_at_def example_occupied_def example_row_def)
  have h2: "\<not> list_ex (scheduled_at ''2025-01-06'' ''11:00'') example_occupied"
    by (simp add: scheduled_at_def example_occupied_def example_row_def)
  note a = cancel_by_stored_text [of "''2025-01-06''" "''09:00''" example_occupied
      "''2025-01-02 10:00:00''"]
  note b = cancel_by_stored_text [of "''2025-01-06''" "''11:00''" example_occupied
      "''2025-01-02 10:00:00''"]
  from a b cs cr h1 h2 show ?thesis by blast
qed

text \<open>
  C8 as stated fails for a respelled slot: with Monday 2025-01-06 09:00 booked, a
  scheduled appointment exists at the instant that \<^verbatim>\<open>9:00\<close> of that day denotes, and the
  cancel for \<^verbatim>\<open>9:00\<close> fails with the not-found message and changes nothing.
\<close>

theorem cancel_respelled_slot_counterexample:
  "list_ex (scheduled_at_instant ''2025-01-06'' ''9:00'') example_occupied \<and>
   slot_instant (''2025-01-06'', ''9:00'')
     = Inr \<lparr>year = 2025, month = 1, day = 6, hour = 9, minute = 0,
            second = 0, microsecond = 0\<rparr> \<and>
   scheduled_slots example_occupied = [(''2025-01-06'', ''09:00'')] \<and>
   slot_instant (''2025-01-06'', ''09:00'')
     = Inr \<lparr>year = 2025, month = 1, day = 6, hour = 9, minute = 0,
            second = 0, microsecond = 0\<rparr> \<and>
   cancel_appointment ''2025-01-02 10:00:00'' example_occupied ''2025-01-06'' ''9:00''
     = ((False, ''No appointment found for the specified time''), example_occupied)"
proof -
  have i1: "slot_instant (''2025-01-06'', ''09:00'')
     = Inr \<lparr>year = 2025, month = 1, day = 6, hour = 9, minute = 0,
            second = 0, microsecond = 0\<rparr>"
    by (simp add: slot_instant_def parse_defs cal_defs)
  have i2: "slot_instant (''2025-01-06'', ''9:00'')
     = Inr \<lparr>year = 2025, month = 1, day = 6, hour = 9, minute = 0,
            second = 0, microsecond = 0\<rparr>"
    by (simp add: slot_instant_def parse_defs cal_defs)
  have s: "scheduled_slots example_occupied = [(''2025-01-06'', ''09:00'')]"
    by (simp add: scheduled_slots_def example_occupied_def example_row_def)
  have e: "list_ex (scheduled_at_instant ''2025-01-06'' ''9:00'') example_occupied"
    unfolding scheduled_at_instant_slots s by (simp add: i1 i2)
  have c: "cancel_appointment ''2025-01-02 10:00:00'' example_occupied ''2025-01-06'' ''9:00''
     = ((False, ''No appointment found for the specified time''), example_occupied)"
    by (simp add: cancel_appointment_def db_cancel_appointment_def scheduled_at_def
        example_occupied_def example_row_def)
  from e i2 s i1 c show ?thesis by blast
qed

lemma canonical_rows_in_order:
  assumes ca: "canonical_slot (date a, time a)" and cb: "canonical_slot (date b, time b)"
    and d: "date a = date b" and t: "time a \<le> time b"
  shows "slot_not_after (date a, time a) (date b, time b)"
proof -
  from ca obtain x where x: "slot_instant (date a, time a) = Inr x"
    "(date a, time a) = slot_of x" "on_the_minute x"
    by (rule canonical_slotD)
  from cb obtain y where y: "slot_instant (date b, time b) = Inr y"
    "(date b, time b) = slot_of y" "on_the_minute y"
    by (rule canonical_slotD)
  have vx: "valid_dt x" and sx: "second x = 0" "microsecond x = 0"
    using x(3) by (simp_all add: on_the_minute_def)
  have vy: "valid_dt y" and sy: "second y = 0" "microsecond y = 0"
    using y(3) by (simp_all add: on_the_minute_def)
  from x(2) y(2) d have "strftime_date x = strftime_date y" by (simp add: slot_of_def)
  then have ymd: "year x = year y" "month x = month y" "day x = day y"
    by (simp_all add: strftime_date_same_day [OF vx vy])
  from x(2) y(2) t have "strftime_time x \<le> strftime_time y" by (simp add: slot_of_def)
  from strftime_time_le [OF vx vy this]
  have hm: "hour x < hour y \<or> hour x = hour y \<and> minute x \<le> minute y" .
  have "\<not> dt_less y x"
    using ymd hm sx sy by (auto simp: dt_less_def dt_fields_def)
  then show ?thesis by (simp add: slot_not_after_def x(1) y(1))
qed

lemma canonical_date_selects_day:
  assumes cd: "canonical_date d" and ca: "canonical_slot (date a, time a)"
  shows "date a = d \<longleftrightarrow> slot_on_day d (date a, time a)"
proof -
  from cd obtain c0 where c0: "strptime_date d = Inr c0" "d = strftime_date c0"
    by (auto simp: canonical_date_def split: sum.splits)
  have v0: "valid_dt c0" using c0(1) by (rule strptime_date_valid)
  from ca obtain x where x: "slot_instant (date a, time a) = Inr x"
    "(date a, time a) = slot_of x" "on_the_minute x"
    by (rule canonical_slotD)
  have vx: "valid_dt x" using x(3) by (simp add: on_the_minute_def)
  have "date a = strftime_date x" using x(2) by (simp add: slot_of_def)
  then have "date a = d \<longleftrightarrow> strftime_date x = strftime_date c0"
    using c0(2) by simp
  also have "\<dots> \<longleftrightarrow> year x = year c0 \<and> month x = month c0 \<and> day x = day c0"
    by (rule strftime_date_same_day [OF vx v0])
  also have "\<dots> \<longleftrightarrow> slot_on_day d (date a, time a)"
    by (simp add: slot_on_day_def c0(1) x(1))
  finally show ?thesis .
qed

lemma scheduled_row_canonical:
  "canonical_store st \<Longrightarrow> a \<in> set st \<Longrightarrow> status a = ''scheduled''
     \<Longrightarrow> canonical_slot (date a, time a)"
  by (auto simp: canonical_store_def scheduled_slots_def list_all_iff)

text \<open>
  C9, as amended. For a date, given as a non-empty string, \<^verbatim>\<open>get_appointments\<close> returns
  exactly the rows whose stored date string equals it and whose status is
  \<^verbatim>\<open>scheduled\<close>, each as often as the store holds it, in ascending order of the stored
  time strings compared as text; no row with status \<^verbatim>\<open>cancelled\<close> is returned. When the
  scheduled rows are in canonical form, that order is chronological; when the date is
  in canonical form as well, the rows returned are exactly the scheduled appointments
  of that calendar day.
\<close>

theorem list_by_date_text_order:
  assumes "d \<noteq> []"
  shows "mset (get_appointments today st (Some d))
           = mset (filter (\<lambda>a. date a = d \<and> status a = ''scheduled'') st)
       \<and> sorted (map time (get_appointments today st (Some d)))
       \<and> ''cancelled'' \<notin> status ` set (get_appointments today st (Some d))
       \<and> (canonical_store st \<longrightarrow>
            sorted_wrt (\<lambda>a b. slot_not_after (date a, time a) (date b, time b))
              (get_appointments today st (Some d)))
       \<and> (canonical_store st \<and> canonical_date d \<longrightarrow>
            mset (get_appointments today st (Some d))
              = mset (filter (\<lambda>a. status a = ''scheduled''
                                \<and> slot_on_day d (date a, time a)) st))"
proof -
  define res where "res = get_appointments today st (Some d)"
  have r: "res = sort_key time (filter (\<lambda>a. date a = d \<and> status a = ''scheduled'') st)"
    using assms by (simp add: res_def get_appointments_def db_get_appointments_def)
  have m: "mset res = mset (filter (\<lambda>a. date a = d \<and> status a = ''scheduled'') st)"
    by (simp add: r)
  have s: "sorted (map time res)" by (simp add: r)
  have n: "''cancelled'' \<notin> status ` set res" by (auto simp: r)
  have mem: "a \<in> set st \<and> date a = d \<and> status a = ''scheduled''" if "a \<in> set res" for a
    using that by (simp add: r)
  have chrono: "sorted_wrt (\<lambda>a b. slot_not_after (date a, time a) (date b, time b)) res"
    if c: "canonical_store st"
  proof -
    from s have "sorted_wrt (\<lambda>a b. time a \<le> time b) res"
      by (simp add: sorted_map)
    then show ?thesis
    proof (rule sorted_wrt_mono_rel [rotated])
      fix a b assume ab: "a \<in> set res" "b \<in> set res" "time a \<le> time b"
      from mem [OF ab(1)] c have ca: "canonical_slot (date a, time a)"
        by (auto intro: scheduled_row_canonical)
      from mem [OF ab(2)] c have cb: "canonical_slot (date b, time b)"
        by (auto intro: scheduled_row_canonical)
      from mem [OF ab(1)] mem [OF ab(2)] have "date a = date b" by simp
      from canonical_rows_in_order [OF ca cb this ab(3)]
      show "slot_not_after (date a, time a) (date b, time b)" .
    qed
  qed
  have day: "mset res = mset (filter (\<lambda>a. status a = ''scheduled''
                                \<and> slot_on_day d (date a, time a)) st)"
    if c: "canonical_store st" and cd: "canonical_date d"
  proof -
    have "filter (\<lambda>a. date a = d \<and> status a = ''scheduled'') st
        = filter (\<lambda>a. status a = ''scheduled'' \<and> slot_on_day d (date a, time a)) st"
    proof (rule filter_cong [OF refl])
      fix a assume a: "a \<in> set st"
      show "(date a = d \<and> status a = ''scheduled'')
          = (status a = ''scheduled'' \<and> slot_on_day d (date a, time a))"
      proof (cases "status a = ''scheduled''")
        case True
        from scheduled_row_canonical [OF c a True]
        have "canonical_slot (date a, time a)" .
        from canonical_date_selects_day [OF cd this] True show ?thesis by simp
      next
        case False
        then show ?thesis by simp
      qed
    qed
    with m show ?thesis by simp
  qed
  from m s n chrono day show ?thesis unfolding res_def by blast
qed

theorem list_by_date_text_order_witness:
  "''2025-01-06'' \<noteq> [] \<and> canonical_store example_day \<and> canonical_date ''2025-01-06'' \<and>
   get_appointments ''2025-01-01'' example_day (Some ''2025-01-06'')
     = [example_row 4 ''2025-01-06'' ''09:00'' ''scheduled'',
        example_row 1 ''2025-01-06'' ''10:30'' ''scheduled''] \<and>
   sorted_wrt (\<lambda>a b. slot_not_after (date a, time a) (date b, time b))
     (get_appointments ''2025-01-01'' example_day (Some ''2025-01-06''))"
proof -
  have h: "''2025-01-06'' \<noteq> []" by simp
  have cs: "canonical_store example_day"
    by (simp add: slot_defs example_day_def example_row_def parse_defs fmt_defs cal_defs)
  have cd: "canonical_date ''2025-01-06''"
    by (simp add: slot_defs parse_defs fmt_defs cal_defs)
  have v: "get_appointments ''2025-01-01'' example_day (Some ''2025-01-06'')
     = [example_row 4 ''2025-01-06'' ''09:00'' ''scheduled'',
        example_row 1 ''2025-01-06'' ''10:30'' ''scheduled'']"
    by (simp add: get_appointments_def db_get_appointments_def example_day_def
        example_row_def)
  from list_by_date_text_order [OF h, of "''2025-01-01''" example_day] h cs cd v
  show ?thesis by blast
qed

text \<open>
  C9 as stated fails for times that are not zero-padded: \<^verbatim>\<open>9:30\<close> and \<^verbatim>\<open>11:00\<close> on
  Monday 2025-01-06 are both valid for the engine, and the list of that day returns
  11:00 before 9:30.
\<close>

theorem list_text_order_counterexample:
  "is_valid_datetime example_now ''2025-01-06'' ''9:30'' = Inr True \<and>
   is_valid_datetime example_now ''2025-01-06'' ''11:00'' = Inr True \<and>
   get_appointments ''2025-01-01'' example_respelled (Some ''2025-01-06'')
     = [example_row 2 ''2025-01-06'' ''11:00'' ''scheduled'',
        example_row 1 ''2025-01-06'' ''9:30'' ''scheduled''] \<and>
   slot_instant (''2025-01-06'', ''11:00'')
     = Inr \<lparr>year = 2025, month = 1, day = 6, hour = 11, minute = 0,
            second = 0, microsecond = 0\<rparr> \<and>
   slot_instant (''2025-01-06'', ''9:30'')
     = Inr \<lparr>year = 2025, month = 1, day = 6, hour = 9, minute = 30,
            second = 0, microsecond = 0\<rparr> \<and>
   dt_less \<lparr>year = 2025, month = 1, day = 6, hour = 9, minute = 30,
            second = 0, microsecond = 0\<rparr>
           \<lparr>year = 2025, month = 1, day = 6, hour = 11, minute = 0,
            second = 0, microsecond = 0\<rparr>"
proof -
  have v1: "is_valid_datetime example_now ''2025-01-06'' ''9:30'' = Inr True"
    by (simp add: example_now_def engine_defs cfg_defs parse_defs cal_defs)
  have v2: "is_valid_datetime example_now ''2025-01-06'' ''11:00'' = Inr True"
    by (simp add: example_now_def engine_defs cfg_defs parse_defs cal_defs)
  have g: "get_appointments ''2025-01-01'' example_respelled (Some ''2025-01-06'')
     = [example_row 2 ''2025-01-06'' ''11:00'' ''scheduled'',
        example_row 1 ''2025-01-06'' ''9:30'' ''scheduled'']"
    by (simp add: get_appointments_def db_get_appointments_def example_respelled_def
        example_row_def)
  have i1: "slot_instant (''2025-01-06'', ''11:00'')
     = Inr \<lparr>year = 2025, month = 1, day = 6, hour = 11, minute = 0,
            second = 0, microsecond = 0\<rparr>"
    by (simp add: slot_instant_def parse_defs cal_defs)
  have i2: "slot_instant (''2025-01-06'', ''9:30'')
     = Inr \<lparr>year = 2025, month = 1, day = 6, hour = 9, minute = 30,
            second = 0, microsecond = 0\<rparr>"
    by (simp add: slot_instant_def parse_defs cal_defs)
  have l: "dt_less \<lparr>year = 2025, month = 1, day = 6, hour = 9, minute = 30,
            second = 0, microsecond = 0\<rparr>
           \<lparr>year = 2025, month = 1, day = 6, hour = 11, minute = 0,
            second = 0, microsecond = 0\<rparr>"
    by (simp add: cal_defs)
  from v1 v2 g i1 i2 l show ?thesis by blast
qed

section \<open>The slot validator\<close>

text \<open>
  C3, as amended. For a pair that parses and a clock reading \<open>now\<close> for which
  \<open>now\<close> plus the notice is a datetime, \<^verbatim>\<open>_is_valid_datetime\<close> returns false
  whenever the requested instant is earlier than \<open>now\<close> plus the notice. A request
  exactly at that instant passes the notice test: the result is then decided by the
  working hours and the weekday alone.
\<close>

theorem notice_boundary:
  assumes "strptime_datetime (d @ '' '' @ t) = Inr dt"
      and "add_minutes (60 * MIN_SCHEDULE_NOTICE) now = Inr notice"
  shows "(dt_less dt notice \<longrightarrow> is_valid_datetime now d t = Inr False)
       \<and> (dt = notice \<longrightarrow>
            is_valid_datetime now d t
              = Inr (WORKING_HOURS_START \<le> hour dt \<and> hour dt < WORKING_HOURS_END
                     \<and> weekday dt < 5))"
  using assms by (auto simp: is_valid_datetime_def dt_less_def)

theorem notice_boundary_witness:
  "strptime_datetime (''2025-01-06'' @ '' '' @ ''09:30'')
     = Inr \<lparr>year = 2025, month = 1, day = 6, hour = 9, minute = 30,
            second = 0, microsecond = 0\<rparr> \<and>
   add_minutes (60 * MIN_SCHEDULE_NOTICE)
       \<lparr>year = 2025, month = 1, day = 6, hour = 9, minute = 0, second = 0, microsecond = 0\<rparr>
     = Inr \<lparr>year = 2025, month = 1, day = 6, hour = 10, minute = 0,
            second = 0, microsecond = 0\<rparr> \<and>
   dt_less \<lparr>year = 2025, month = 1, day = 6, hour = 9, minute = 30,
            second = 0, microsecond = 0\<rparr>
           \<lparr>year = 2025, month = 1, day = 6, hour = 10, minute = 0,
            second = 0, microsecond = 0\<rparr> \<and>
   is_valid_datetime
       \<lparr>year = 2025, month = 1, day = 6, hour = 9, minute = 0, second = 0, microsecond = 0\<rparr>
       ''2025-01-06'' ''09:30'' = Inr False"
proof -
  have p: "strptime_datetime (''2025-01-06'' @ '' '' @ ''09:30'')
     = Inr \<lparr>year = 2025, month = 1, day = 6, hour = 9, minute = 30,
            second = 0, microsecond = 0\<rparr>"
    by (simp add: parse_defs cal_defs)
  have n: "add_minutes (60 * MIN_SCHEDULE_NOTICE)
       \<lparr>year = 2025, month = 1, day = 6, hour = 9, minute = 0, second = 0, microsecond = 0\<rparr>
     = Inr \<lparr>year = 2025, month = 1, day = 6, hour = 10, minute = 0,
            second = 0, microsecond = 0\<rparr>"
    by (simp add: cfg_defs cal_defs)
  have l: "dt_less \<lparr>year = 2025, month = 1, day = 6, hour = 9, minute = 30,
            second = 0, microsecond = 0\<rparr>
           \<lparr>year = 2025, month = 1, day = 6, hour = 10, minute = 0,
            second = 0, microsecond = 0\<rparr>"
    by (simp add: cal_defs)
  from notice_boundary [OF p n] p n l show ?thesis by blast
qed

text \<open>
  C3 as stated fails at the boundary: at 09:00:00 sharp on Monday 2025-01-06 the
  request for 10:00 of the same day is exactly \<open>now\<close> plus one hour, and it is valid.
\<close>

theorem notice_boundary_counterexample:
  "strptime_datetime (''2025-01-06'' @ '' '' @ ''10:00'')
     = Inr \<lparr>year = 2025, month = 1, day = 6, hour = 10, minute = 0,
            second = 0, microsecond = 0\<rparr> \<and>
   add_minutes (60 * MIN_SCHEDULE_NOTICE)
       \<lparr>year = 2025, month = 1, day = 6, hour = 9, minute = 0, second = 0, microsecond = 0\<rparr>
     = Inr \<lparr>year = 2025, month = 1, day = 6, hour = 10, minute = 0,
            second = 0, microsecond = 0\<rparr> \<and>
   is_valid_datetime
       \<lparr>year = 2025, month = 1, day = 6, hour = 9, minute = 0, second = 0, microsecond = 0\<rparr>
       ''2025-01-06'' ''10:00'' = Inr True"
  by (simp add: engine_defs cfg_defs parse_defs cal_defs)



section \<open>The suggestion loop\<close>

lemma dt_less_trans: "dt_less a b \<Longrightarrow> dt_less b c \<Longrightarrow> dt_less a c"
  unfolding dt_less_def by (rule less_trans)

lemma dt_less_irrefl: "\<not> dt_less a a"
  by (simp add: dt_less_def)

lemma days_in_month_ge: "1 \<le> days_in_month y m"
  by (simp add: days_in_month_def)

lemma next_day_valid:
  assumes "valid_dt c" "next_day c = Inr d"
  shows "valid_dt d"
  using assms days_in_month_ge [of "year c" "month c + 1"] days_in_month_ge [of "year c + 1" 1]
  by (auto simp: next_day_def valid_dt_def split: if_splits)

lemma next_day_less:
  assumes "next_day c = Inr d" "year c' = year d" "month c' = month d" "day c' = day d"
  shows "dt_less c c'"
  using assms by (auto simp: next_day_def dt_less_def dt_fields_def split: if_splits)

lemma combine_on_the_minute: "valid_dt d \<Longrightarrow> h < 24 \<Longrightarrow> on_the_minute (combine d h)"
  by (simp add: on_the_minute_def valid_dt_def combine_def)

lemma add_minutes_on_the_minute:
  assumes "on_the_minute c" "n \<le> 1440" "add_minutes n c = Inr c'"
  shows "on_the_minute c'"
proof (cases "hour c * 60 + minute c + n < 1440")
  case True
  with assms(3) have "c' = c\<lparr>hour := (hour c * 60 + minute c + n) div 60,
                          minute := (hour c * 60 + minute c + n) mod 60\<rparr>"
    by (simp add: add_minutes_def Let_def)
  with True assms(1) show ?thesis
    by (simp add: on_the_minute_def valid_dt_def)
next
  case False
  with assms(3) obtain d where d: "next_day c = Inr d"
    and c': "c' = d\<lparr>hour := (hour c * 60 + minute c + n - 1440) div 60,
                     minute := (hour c * 60 + minute c + n - 1440) mod 60\<rparr>"
    by (auto simp: add_minutes_def Let_def split: sum.splits)
  have v: "valid_dt d" using assms(1) d by (auto simp: on_the_minute_def intro: next_day_valid)
  have s: "second d = 0" "microsecond d = 0"
    using assms(1) d by (auto simp: on_the_minute_def next_day_def split: if_splits)
  have "hour c < 24" "minute c < 60" using assms(1) by (simp_all add: on_the_minute_def valid_dt_def)
  with assms(2) have "(hour c * 60 + minute c + n - 1440) div 60 < 24" by arith
  with v s show ?thesis
    by (simp add: c' on_the_minute_def valid_dt_def)
qed

lemma add_minutes_less:
  assumes "0 < n" "add_minutes n c = Inr c'"
  shows "dt_less c c'"
proof (cases "hour c * 60 + minute c + n < 1440")
  case True
  with assms(2) have c': "c' = c\<lparr>hour := (hour c * 60 + minute c + n) div 60,
                          minute := (hour c * 60 + minute c + n) mod 60\<rparr>"
    by (simp add: add_minutes_def Let_def)
  define q where "q = (hour c * 60 + minute c + n) div 60"
  define r where "r = (hour c * 60 + minute c + n) mod 60"
  have e: "hour c * 60 + minute c + n = 60 * q + r"
    by (simp add: q_def r_def)
  have "hour c * 60 div 60 \<le> (hour c * 60 + minute c + n) div 60"
    by (rule div_le_mono) simp
  then have "hour c \<le> q" by (simp add: q_def)
  with e assms(1) have "hour c < q \<or> hour c = q \<and> minute c < r"
    by linarith
  then show ?thesis
    by (auto simp: c' dt_less_def dt_fields_def q_def r_def)
next
  case False
  with assms(2) obtain d where d: "next_day c = Inr d"
    and c': "c' = d\<lparr>hour := (hour c * 60 + minute c + n - 1440) div 60,
                     minute := (hour c * 60 + minute c + n - 1440) mod 60\<rparr>"
    by (auto simp: add_minutes_def Let_def split: sum.splits)
  show ?thesis
    by (rule next_day_less [OF d]) (simp_all add: c')
qed

lemma skip_weekend_props:
  "skip_weekend c = Inr c' \<Longrightarrow> on_the_minute c
     \<Longrightarrow> on_the_minute c' \<and> (c' = c \<or> dt_less c c')"
proof (induction c rule: skip_weekend.induct)
  case (1 c)
  show ?case
  proof (cases "5 \<le> weekday c")
    case False
    with "1.prems" show ?thesis by (simp add: skip_weekend.simps [of c])
  next
    case True
    with "1.prems" obtain d where d: "next_day c = Inr d"
      and r: "skip_weekend (combine d WORKING_HOURS_START) = Inr c'"
      by (auto simp: skip_weekend.simps [of c] split: sum.splits)
    have v: "valid_dt d" using "1.prems"(2) d by (auto simp: on_the_minute_def intro: next_day_valid)
    have o: "on_the_minute (combine d WORKING_HOURS_START)"
      by (rule combine_on_the_minute [OF v]) (simp add: WORKING_HOURS_START_def)
    have l: "dt_less c (combine d WORKING_HOURS_START)"
      by (rule next_day_less [OF d]) (simp_all add: combine_def)
    from "1.IH" [OF True d r o] l show ?thesis
      by (auto intro: dt_less_trans)
  qed
qed

lemma next_candidate_props:
  assumes "next_candidate c = Inr c'" "on_the_minute c"
  shows "on_the_minute c' \<and> dt_less c c'"
proof -
  from assms(1) obtain c1 c2 where c1: "add_minutes APPOINTMENT_DURATION c = Inr c1"
    and c2: "(if WORKING_HOURS_END \<le> hour c1
              then (case next_day c1 of Inl e \<Rightarrow> Inl e
                    | Inr d \<Rightarrow> Inr (combine d WORKING_HOURS_START))
              else Inr c1) = Inr c2"
    and c': "skip_weekend c2 = Inr c'"
    by (auto simp: next_candidate_def split: sum.splits)
  have o1: "on_the_minute c1"
    by (rule add_minutes_on_the_minute [OF assms(2) _ c1]) (simp add: APPOINTMENT_DURATION_def)
  have l1: "dt_less c c1"
    by (rule add_minutes_less [OF _ c1]) (simp add: APPOINTMENT_DURATION_def)
  have s2: "on_the_minute c2 \<and> (c2 = c1 \<or> dt_less c1 c2)"
  proof (cases "WORKING_HOURS_END \<le> hour c1")
    case False
    with c2 o1 show ?thesis by simp
  next
    case True
    with c2 obtain d where d: "next_day c1 = Inr d" and e: "c2 = combine d WORKING_HOURS_START"
      by (auto split: sum.splits)
    have v: "valid_dt d" using o1 d by (auto simp: on_the_minute_def intro: next_day_valid)
    have "on_the_minute c2" unfolding e
      by (rule combine_on_the_minute [OF v]) (simp add: WORKING_HOURS_START_def)
    moreover have "dt_less c1 c2"
      by (rule next_day_less [OF d]) (simp_all add: e combine_def)
    ultimately show ?thesis by simp
  qed
  from skip_weekend_props [OF c'] s2 l1 show ?thesis
    by (auto intro: dt_less_trans)
qed

lemma suggest_loop_result:
  "suggest_loop now st num cur sugg ex = Inr (res, n) \<Longrightarrow> on_the_minute cur \<Longrightarrow>
     \<exists>cs. res = sugg @ map slot_of cs \<and> sorted_wrt dt_less (cur # cs)
        \<and> (\<forall>c\<in>set cs. on_the_minute c
              \<and> is_available now st (strftime_date c) (strftime_time c))"
proof (induction now st num cur sugg ex rule: suggest_loop.induct)
  case (1 now st num cur sugg ex)
  show ?case
  proof (cases "int (length sugg) < num \<and> length sugg < 10")
    case False
    with "1.prems"(1) have "res = sugg" by (simp add: suggest_loop.simps [of now st num cur sugg ex])
    then show ?thesis by (intro exI [of _ "[]"]) simp
  next
    case True
    with "1.prems"(1) obtain c where c: "next_candidate cur = Inr c"
      by (auto simp: suggest_loop.simps [of now st num cur sugg ex] split: sum.splits)
    from next_candidate_props [OF c "1.prems"(2)]
    have oc: "on_the_minute c" and lc: "dt_less cur c" by simp_all
    show ?thesis
    proof (cases "is_available now st (strftime_date c) (strftime_time c)")
      case av: True
      with True c "1.prems"(1)
      have r: "suggest_loop now st num c (sugg @ [(strftime_date c, strftime_time c)]) (ex + 1)
          = Inr (res, n)"
        by (simp add: suggest_loop.simps [of now st num cur sugg ex] Let_def)
      from "1.IH"(1) [OF True c refl refl av r oc]
      obtain cs where cs: "res = (sugg @ [(strftime_date c, strftime_time c)]) @ map slot_of cs"
        "sorted_wrt dt_less (c # cs)"
        "\<forall>c\<in>set cs. on_the_minute c \<and> is_available now st (strftime_date c) (strftime_time c)"
        by blast
      have "sorted_wrt dt_less (cur # c # cs)"
        using cs(2) lc by (auto intro: dt_less_trans)
      with cs(1,3) oc av show ?thesis
        by (intro exI [of _ "c # cs"]) (simp add: slot_of_def)
    next
      case nav: False
      with True c "1.prems"(1)
      have r: "suggest_loop now st num c sugg (ex + 1) = Inr (res, n)"
        by (simp add: suggest_loop.simps [of now st num cur sugg ex] Let_def)
      from "1.IH"(2) [OF True c refl refl nav r oc]
      obtain cs where cs: "res = sugg @ map slot_of cs"
        "sorted_wrt dt_less (c # cs)"
        "\<forall>c\<in>set cs. on_the_minute c \<and> is_available now st (strftime_date c) (strftime_time c)"
        by blast
      have "sorted_wrt dt_less (cur # cs)"
        using cs(2) lc by (auto intro: dt_less_trans)
      with cs(1,3) show ?thesis by blast
    qed
  qed
qed

lemma suggest_loop_length:
  "suggest_loop now st num cur sugg ex = Inr (res, n) \<Longrightarrow> length sugg \<le> min (nat num) 10
     \<Longrightarrow> length res = min (nat num) 10"
proof (induction now st num cur sugg ex rule: suggest_loop.induct)
  case (1 now st num cur sugg ex)
  show ?case
  proof (cases "int (length sugg) < num \<and> length sugg < 10")
    case False
    with "1.prems"(1) have "res = sugg" by (simp add: suggest_loop.simps [of now st num cur sugg ex])
    with False "1.prems"(2) show ?thesis by auto
  next
    case True
    with "1.prems"(1) obtain c where c: "next_candidate cur = Inr c"
      by (auto simp: suggest_loop.simps [of now st num cur sugg ex] split: sum.splits)
    show ?thesis
    proof (cases "is_available now st (strftime_date c) (strftime_time c)")
      case av: True
      with True c "1.prems"(1)
      have r: "suggest_loop now st num c (sugg @ [(strftime_date c, strftime_time c)]) (ex + 1)
          = Inr (res, n)"
        by (simp add: suggest_loop.simps [of now st num cur sugg ex] Let_def)
      have "length (sugg @ [(strftime_date c, strftime_time c)]) \<le> min (nat num) 10"
        using True by auto
      from "1.IH"(1) [OF True c refl refl av r this] show ?thesis .
    next
      case nav: False
      with True c "1.prems"(1)
      have r: "suggest_loop now st num c sugg (ex + 1) = Inr (res, n)"
        by (simp add: suggest_loop.simps [of now st num cur sugg ex] Let_def)
      from "1.IH"(2) [OF True c refl refl nav r "1.prems"(2)] show ?thesis .
    qed
  qed
qed


lemma is_available_working:
  "is_available now st d t \<Longrightarrow> strptime_datetime (d @ '' '' @ t) = Inr c
     \<Longrightarrow> WORKING_HOURS_START \<le> hour c \<and> hour c < WORKING_HOURS_END \<and> weekday c < 5"
  by (auto simp: is_available_def is_valid_datetime_def split: sum.splits if_splits)

lemma sorted_wrt_irrefl_distinct:
  "sorted_wrt R xs \<Longrightarrow> (\<And>x. \<not> R x x) \<Longrightarrow> distinct xs"
  by (induction xs) auto

lemma slot_before_irrefl: "\<not> slot_before p p"
  by (simp add: slot_before_def dt_less_irrefl split: sum.splits)

lemma suggest_alternative_slots_cases:
  "suggest_alternative_slots now st d t num = [] \<or>
   (\<exists>pref cs. strptime_datetime (d @ '' '' @ t) = Inr pref
      \<and> suggest_alternative_slots now st d t num = map slot_of cs
      \<and> length cs = min (nat num) 10
      \<and> sorted_wrt dt_less (pref # cs)
      \<and> (\<forall>c\<in>set cs. on_the_minute c
            \<and> is_available now st (strftime_date c) (strftime_time c)))"
proof (cases "strptime_datetime (d @ '' '' @ t)")
  case (Inl e)
  then show ?thesis by (simp add: suggest_alternative_slots_def)
next
  case (Inr pref)
  show ?thesis
  proof (cases "suggest_loop now st num pref [] 0")
    case (Inl e)
    with Inr show ?thesis by (simp add: suggest_alternative_slots_def)
  next
    case r: (Inr a)
    obtain res n where a: "a = (res, n)" by (cases a)
    have res: "suggest_alternative_slots now st d t num = res"
      using Inr r a by (simp add: suggest_alternative_slots_def)
    have o: "on_the_minute pref" using Inr by (rule strptime_on_the_minute)
    from suggest_loop_result [OF r [unfolded a] o]
    obtain cs where cs: "res = map slot_of cs" "sorted_wrt dt_less (pref # cs)"
      "\<forall>c\<in>set cs. on_the_minute c \<and> is_available now st (strftime_date c) (strftime_time c)"
      by auto
    have "length res = min (nat num) 10"
      by (rule suggest_loop_length [OF r [unfolded a]]) simp
    with cs Inr res show ?thesis by auto
  qed
qed

text \<open>An example: Friday 2025-01-03 with 16:00 taken, three alternatives to 15:30.\<close>

lemmas loop_defs = suggest_alternative_slots_def suggest_examined_def suggest_loop.simps
  skip_weekend.simps

lemma example_suggestions:
  "suggest_alternative_slots example_now [example_row 1 ''2025-01-03'' ''16:00'' ''scheduled'']
     ''2025-01-03'' ''15:30'' 3
     = [(''2025-01-03'', ''16:30''), (''2025-01-06'', ''09:00''), (''2025-01-06'', ''09:30'')]"
  by (simp add: example_now_def example_row_def loop_defs engine_defs cfg_defs parse_defs
      fmt_defs cal_defs Let_def)

text \<open>
  C6. A list returned by \<^verbatim>\<open>suggest_alternative_slots\<close> holds at most
  \<open>num_suggestions\<close> pairs; every pair denotes an instant whose hour lies within
  the working hours and whose day is a working weekday; no pair occurs twice; and the
  instants of the pairs strictly increase along the list.
\<close>

theorem suggestions_wellformed:
  "length (suggest_alternative_slots now st d t num) \<le> nat num
   \<and> list_all working_slot (suggest_alternative_slots now st d t num)
   \<and> distinct (suggest_alternative_slots now st d t num)
   \<and> sorted_wrt slot_before (suggest_alternative_slots now st d t num)"
proof -
  from suggest_alternative_slots_cases [of now st d t num]
  consider "suggest_alternative_slots now st d t num = []"
    | pref cs where "strptime_datetime (d @ '' '' @ t) = Inr pref"
      "suggest_alternative_slots now st d t num = map slot_of cs"
      "length cs = min (nat num) 10" "sorted_wrt dt_less (pref # cs)"
      "\<forall>c\<in>set cs. on_the_minute c \<and> is_available now st (strftime_date c) (strftime_time c)"
    by blast
  then show ?thesis
  proof cases
    case 1
    then show ?thesis by simp
  next
    case 2
    have w: "working_slot (slot_of c)" if "c \<in> set cs" for c
    proof -
      from that 2(5) have o: "on_the_minute c"
        and a: "is_available now st (strftime_date c) (strftime_time c)" by simp_all
      from is_available_working [OF a strptime_strftime [OF o]] show ?thesis
        by (simp add: working_slot_def slot_instant_slot_of [OF o])
    qed
    have "sorted_wrt dt_less cs" using 2(4) by simp
    then have "sorted_wrt (\<lambda>a b. slot_before (slot_of a) (slot_of b)) cs"
    proof (rule sorted_wrt_mono_rel [rotated])
      fix a b assume "a \<in> set cs" "b \<in> set cs" "dt_less a b"
      with 2(5) show "slot_before (slot_of a) (slot_of b)"
        by (simp add: slot_before_def slot_instant_slot_of)
    qed
    then have s: "sorted_wrt slot_before (map slot_of cs)"
      by (simp add: sorted_wrt_map)
    have dist: "distinct (map slot_of cs)"
      by (rule sorted_wrt_irrefl_distinct [OF s]) (rule slot_before_irrefl)
    from w have "list_all working_slot (map slot_of cs)"
      by (simp add: list_all_iff)
    with s dist 2(2,3) show ?thesis by simp
  qed
qed

theorem suggestions_wellformed_witness:
  "suggest_alternative_slots example_now [example_row 1 ''2025-01-03'' ''16:00'' ''scheduled'']
     ''2025-01-03'' ''15:30'' 3
     = [(''2025-01-03'', ''16:30''), (''2025-01-06'', ''09:00''), (''2025-01-06'', ''09:30'')] \<and>
   list_all working_slot
     [(''2025-01-03'', ''16:30''), (''2025-01-06'', ''09:00''), (''2025-01-06'', ''09:30'')] \<and>
   sorted_wrt slot_before
     [(''2025-01-03'', ''16:30''), (''2025-01-06'', ''09:00''), (''2025-01-06'', ''09:30'')]"
  using suggestions_wellformed [of example_now
      "[example_row 1 ''2025-01-03'' ''16:00'' ''scheduled'']" "''2025-01-03''" "''15:30''" 3]
  by (simp only: example_suggestions)

text \<open>
  C10. The requested pair itself is never among the suggestions: every candidate is
  later than the requested instant.
\<close>

theorem requested_slot_not_suggested:
  "(d, t) \<notin> set (suggest_alternative_slots now st d t num)"
proof
  assume m: "(d, t) \<in> set (suggest_alternative_slots now st d t num)"
  with suggest_alternative_slots_cases [of now st d t num]
  obtain pref cs where p: "strptime_datetime (d @ '' '' @ t) = Inr pref"
    and r: "suggest_alternative_slots now st d t num = map slot_of cs"
    and s: "sorted_wrt dt_less (pref # cs)"
    and a: "\<forall>c\<in>set cs. on_the_minute c \<and> is_available now st (strftime_date c) (strftime_time c)"
    by auto
  from m r obtain c where c: "c \<in> set cs" "(d, t) = slot_of c" by auto
  from c(1) a have "on_the_minute c" by simp
  then have "slot_instant (slot_of c) = Inr c" by (rule slot_instant_slot_of)
  with c(2) have "slot_instant (d, t) = Inr c" by simp
  moreover from p have "slot_instant (d, t) = Inr pref" by (simp add: slot_instant_def)
  ultimately have "c = pref" by simp
  moreover from s c(1) have "dt_less pref c" by simp
  ultimately show False by (simp add: dt_less_irrefl)
qed

theorem requested_slot_not_suggested_witness:
  "(''2025-01-03'', ''15:30'') \<notin> set (suggest_alternative_slots example_now
     [example_row 1 ''2025-01-03'' ''16:00'' ''scheduled''] ''2025-01-03'' ''15:30'' 3) \<and>
   suggest_alternative_slots example_now [example_row 1 ''2025-01-03'' ''16:00'' ''scheduled'']
     ''2025-01-03'' ''15:30'' 3
     = [(''2025-01-03'', ''16:30''), (''2025-01-06'', ''09:00''), (''2025-01-06'', ''09:30'')]"
  using requested_slot_not_suggested [of "''2025-01-03''" "''15:30''" example_now
      "[example_row 1 ''2025-01-03'' ''16:00'' ''scheduled'']" 3] example_suggestions
  by blast

lemma skip_weekend_error: "skip_weekend c = Inl e \<Longrightarrow> e = OverflowError"
proof (induction c rule: skip_weekend.induct)
  case (1 c)
  show ?case
  proof (cases "5 \<le> weekday c")
    case False
    with "1.prems" show ?thesis by (simp add: skip_weekend.simps [of c])
  next
    case True
    show ?thesis
    proof (cases "next_day c")
      case (Inl e')
      with True "1.prems" show ?thesis
        by (auto simp: skip_weekend.simps [of c] next_day_def split: if_splits)
    next
      case (Inr d)
      with True "1.prems" have "skip_weekend (combine d WORKING_HOURS_START) = Inl e"
        by (simp add: skip_weekend.simps [of c])
      from "1.IH" [OF True Inr this] show ?thesis .
    qed
  qed
qed

lemma next_day_error: "next_day c = Inl e \<Longrightarrow> e = OverflowError"
  by (auto simp: next_day_def split: if_splits)

lemma next_candidate_error: "next_candidate c = Inl e \<Longrightarrow> e = OverflowError"
  by (auto simp: next_candidate_def add_minutes_def Let_def
      split: sum.splits if_splits dest: next_day_error skip_weekend_error)

lemma suggest_loop_first_available:
  "length sugg \<le> min (nat num) 10 \<Longrightarrow>
   (case suggest_loop now st num cur sugg ex of
      Inl e \<Rightarrow> e = OverflowError
        \<and> length (filter (\<lambda>p. is_available now st (fst p) (snd p))
                    (map slot_of (all_candidates cur)))
            < min (nat num) 10 - length sugg
    | Inr (res, n) \<Rightarrow>
        min (nat num) 10 - length sugg
          \<le> length (filter (\<lambda>p. is_available now st (fst p) (snd p))
                      (map slot_of (all_candidates cur)))
        \<and> res = sugg @ take (min (nat num) 10 - length sugg)
                          (filter (\<lambda>p. is_available now st (fst p) (snd p))
                             (map slot_of (all_candidates cur))))"
proof (induction now st num cur sugg ex rule: suggest_loop.induct)
  case (1 now st num cur sugg ex)
  let ?P = "\<lambda>p. is_available now st (fst p) (snd p)"
  let ?k = "min (nat num) 10"
  show ?case
  proof (cases "int (length sugg) < num \<and> length sugg < 10")
    case False
    with "1.prems" have k: "?k - length sugg = 0" by auto
    from False have "suggest_loop now st num cur sugg ex = Inr (sugg, ex)"
      by (subst suggest_loop.simps) (simp only: if_False)
    then show ?thesis by (simp add: k)
  next
    case True
    then have lt: "length sugg < ?k" by auto
    show ?thesis
    proof (cases "next_candidate cur")
      case (Inl e)
      then have "all_candidates cur = []" by (simp add: all_candidates.simps [of cur])
      with True Inl lt next_candidate_error [OF Inl] show ?thesis
        by (simp add: suggest_loop.simps [of now st num cur sugg ex])
    next
      case (Inr c)
      then have ac: "all_candidates cur = c # all_candidates c"
        by (simp add: all_candidates.simps [of cur])
      show ?thesis
      proof (cases "is_available now st (strftime_date c) (strftime_time c)")
        case av: True
        have loop: "suggest_loop now st num cur sugg ex
            = suggest_loop now st num c (sugg @ [(strftime_date c, strftime_time c)]) (ex + 1)"
          using True Inr av by (simp add: suggest_loop.simps [of now st num cur sugg ex] Let_def)
        have le: "length (sugg @ [(strftime_date c, strftime_time c)]) \<le> ?k"
          using lt by simp
        have fl: "filter ?P (map slot_of (all_candidates cur))
            = slot_of c # filter ?P (map slot_of (all_candidates c))"
          using av by (simp add: ac slot_of_def)
        have k: "?k - length sugg = Suc (?k - length (sugg @ [(strftime_date c, strftime_time c)]))"
          using lt by (simp add: min_def split: if_splits)
        have sc: "(strftime_date c, strftime_time c) = slot_of c"
          by (simp add: slot_of_def)
        note ih = "1.IH"(1) [OF True Inr refl refl av le, unfolded sc]
        show ?thesis
          unfolding loop fl k sc using ih by (auto split: sum.splits)
      next
        case nav: False
        have loop: "suggest_loop now st num cur sugg ex
            = suggest_loop now st num c sugg (ex + 1)"
          using True Inr nav by (simp add: suggest_loop.simps [of now st num cur sugg ex] Let_def)
        have fl: "filter ?P (map slot_of (all_candidates cur))
            = filter ?P (map slot_of (all_candidates c))"
          using nav by (simp add: ac slot_of_def)
        from "1.IH"(2) [OF True Inr refl refl nav "1.prems"] show ?thesis
          unfolding loop fl .
      qed
    qed
  qed
qed

text \<open>
  C4, as amended. \<^verbatim>\<open>suggest_alternative_slots\<close> returns on every input and every store:
  the candidates it examines after the requested instant form a finite list, each
  later than the one before, ending at the latest where the calendar ends with the
  year 9999. The bound of 10 limits the suggestions collected, not the candidates
  examined. The result is the list of the first \<open>min(num_suggestions, 10)\<close> candidates,
  in the order examined, for which \<^verbatim>\<open>is_available\<close> holds; it is the empty list when the
  request does not parse, when \<open>num_suggestions\<close> is not positive, or when fewer
  available candidates than that exist before the end of the calendar.
\<close>

theorem suggest_alternatives_first_available:
  "suggest_alternative_slots now st d t num =
     (case strptime_datetime (d @ '' '' @ t) of
        Inl e \<Rightarrow> []
      | Inr preferred_dt \<Rightarrow>
          (if min (nat num) 10
                \<le> length (filter (\<lambda>p. is_available now st (fst p) (snd p))
                            (map slot_of (all_candidates preferred_dt)))
           then take (min (nat num) 10)
                  (filter (\<lambda>p. is_available now st (fst p) (snd p))
                     (map slot_of (all_candidates preferred_dt)))
           else []))"
proof (cases "strptime_datetime (d @ '' '' @ t)")
  case (Inl e)
  then show ?thesis by (simp add: suggest_alternative_slots_def)
next
  case (Inr pref)
  from suggest_loop_first_available [of "[]" num now st pref 0] Inr
  show ?thesis
    by (auto simp: suggest_alternative_slots_def split: sum.splits)
qed

theorem suggest_alternatives_first_available_witness:
  "strptime_datetime (''2025-01-03'' @ '' '' @ ''15:30'')
     = Inr \<lparr>year = 2025, month = 1, day = 3, hour = 15, minute = 30,
            second = 0, microsecond = 0\<rparr> \<and>
   suggest_alternative_slots example_now [example_row 1 ''2025-01-03'' ''16:00'' ''scheduled'']
     ''2025-01-03'' ''15:30'' 3
     = [(''2025-01-03'', ''16:30''), (''2025-01-06'', ''09:00''), (''2025-01-06'', ''09:30'')] \<and>
   take (min (nat 3) 10)
     (filter (\<lambda>p. is_available example_now
                     [example_row 1 ''2025-01-03'' ''16:00'' ''scheduled''] (fst p) (snd p))
        (map slot_of (all_candidates
           \<lparr>year = 2025, month = 1, day = 3, hour = 15, minute = 30,
            second = 0, microsecond = 0\<rparr>)))
     = [(''2025-01-03'', ''16:30''), (''2025-01-06'', ''09:00''), (''2025-01-06'', ''09:30'')]"
proof -
  have p: "strptime_datetime (''2025-01-03'' @ '' '' @ ''15:30'')
     = Inr \<lparr>year = 2025, month = 1, day = 3, hour = 15, minute = 30,
            second = 0, microsecond = 0\<rparr>"
    by (simp add: parse_defs cal_defs)
  note t = suggest_alternatives_first_available [of example_now
      "[example_row 1 ''2025-01-03'' ''16:00'' ''scheduled'']" "''2025-01-03''" "''15:30''" 3]
  have "take (min (nat 3) 10)
     (filter (\<lambda>p. is_available example_now
                     [example_row 1 ''2025-01-03'' ''16:00'' ''scheduled''] (fst p) (snd p))
        (map slot_of (all_candidates
           \<lparr>year = 2025, month = 1, day = 3, hour = 15, minute = 30,
            second = 0, microsecond = 0\<rparr>)))
     = [(''2025-01-03'', ''16:30''), (''2025-01-06'', ''09:00''), (''2025-01-06'', ''09:30'')]"
    using t unfolding p example_suggestions by (simp split: if_splits)
  with p example_suggestions show ?thesis by blast
qed

text \<open>
  C4 as stated fails: with an empty store, one alternative to Monday 2025-01-06 02:00
  is found only at the fourteenth candidate, 09:00; the thirteen candidates from 02:30
  to 08:30 are examined and refused first.
\<close>

theorem suggest_alternatives_examined_counterexample:
  "suggest_alternative_slots example_now [] ''2025-01-06'' ''02:00'' 1
     = [(''2025-01-06'', ''09:00'')] \<and>
   suggest_examined example_now [] ''2025-01-06'' ''02:00'' 1 = Some 14"
  by (simp add: example_now_def loop_defs engine_defs cfg_defs parse_defs fmt_defs cal_defs)

section \<open>The search for the next available slot\<close>

lemma find_append_case:
  "find P (xs @ ys) = (case find P xs of None \<Rightarrow> find P ys | Some x \<Rightarrow> Some x)"
  by (induction xs) auto

lemma find_holds: "find P xs = Some x \<Longrightarrow> P x"
  by (induction xs) (auto split: if_splits)

lemma scan_times_find:
  "scan_times now st ds (minute_of_day m)
     = Inr (find (\<lambda>p. is_available now st (fst p) (snd p))
              (map (\<lambda>m. (ds, time_string m)) (times_from m)))"
proof (induction m rule: times_from.induct)
  case (1 m)
  have lt: "dt_less (minute_of_day m) (hour_of_day WORKING_HOURS_END)
      \<longleftrightarrow> m < WORKING_HOURS_END * 60"
    by (auto simp: dt_less_def dt_fields_def minute_of_day_def hour_of_day_def
        WORKING_HOURS_END_def)
  have str: "strftime_time (minute_of_day m) = time_string m"
    by (simp add: strftime_time_def time_string_def minute_of_day_def)
  show ?case
  proof (cases "m < WORKING_HOURS_END * 60")
    case False
    then show ?thesis
      by (simp add: scan_times.simps [of now st ds "minute_of_day m"] lt
          times_from.simps [of m])
  next
    case True
    then have "hour (minute_of_day m) * 60 + minute (minute_of_day m) + APPOINTMENT_DURATION
        < 1440"
      by (simp add: minute_of_day_def WORKING_HOURS_END_def APPOINTMENT_DURATION_def)
    then have add: "add_minutes APPOINTMENT_DURATION (minute_of_day m)
        = Inr (minute_of_day (m + APPOINTMENT_DURATION))"
      by (simp add: add_minutes_def Let_def minute_of_day_def)
    show ?thesis
      using True "1.IH" [OF True]
      by (simp add: scan_times.simps [of now st ds "minute_of_day m"] lt str add
          times_from.simps [of m])
  qed
qed

lemma hour_of_day_minute: "hour_of_day h = minute_of_day (h * 60)"
  by (simp add: hour_of_day_def minute_of_day_def)

lemma scan_days_find:
  "(case scan_days n now st cur of Inl e \<Rightarrow> None | Inr found \<Rightarrow> found)
     = find (\<lambda>p. is_available now st (fst p) (snd p)) (scan_order n cur)"
proof (induction n arbitrary: cur)
  case 0
  show ?case by (simp add: scan_order_def)
next
  case (Suc n)
  let ?P = "\<lambda>p. is_available now st (fst p) (snd p)"
  let ?today = "map (\<lambda>m. (strftime_date cur, time_string m))
                  (times_from (WORKING_HOURS_START * 60))"
  have t: "scan_times now st (strftime_date cur) (hour_of_day WORKING_HOURS_START)
      = Inr (find ?P ?today)"
    by (simp only: hour_of_day_minute scan_times_find)
  have o: "scan_order (Suc n) cur
      = ?today @ (case next_day cur of Inl e \<Rightarrow> [] | Inr tomorrow \<Rightarrow> scan_order n tomorrow)"
    by (simp add: scan_order_def split: sum.splits)
  show ?case
  proof (cases "find ?P ?today")
    case (Some slot)
    then show ?thesis by (simp add: t o find_append_case)
  next
    case None
    show ?thesis
    proof (cases "next_day cur")
      case (Inl e)
      with None show ?thesis by (simp add: t o find_append_case)
    next
      case (Inr tomorrow)
      with None Suc.IH [of tomorrow] show ?thesis by (simp add: t o find_append_case)
    qed
  qed
qed

lemma times_from_start:
  "times_from (WORKING_HOURS_START * 60)
     = [540, 570, 600, 630, 660, 690, 720, 750, 780, 810, 840, 870, 900, 930, 960, 990]"
  by (simp add: times_from.simps cfg_defs)


lemma scan_days_numeral:
  "scan_days (numeral k) now st current_date =
     (case scan_times now st (strftime_date current_date) (hour_of_day WORKING_HOURS_START) of
        Inl e \<Rightarrow> Inl e
      | Inr (Some slot) \<Rightarrow> Inr (Some slot)
      | Inr None \<Rightarrow>
          (case next_day current_date of
             Inl e \<Rightarrow> Inl e
           | Inr tomorrow \<Rightarrow> scan_days (pred_numeral k) now st tomorrow))"
  by (simp add: numeral_eq_Suc)

lemma example_next_slot:
  "get_next_available_slot example_now example_occupied (Some ''2025-01-04'')
     = Some (''2025-01-06'', ''09:30'')"
  by (simp add: get_next_available_slot_def scan_days_numeral scan_times.simps
      example_now_def example_occupied_def example_row_def engine_defs cfg_defs parse_defs
      fmt_defs cal_defs Let_def)

text \<open>
  C7. \<^verbatim>\<open>get_next_available_slot\<close> starts at the given date, or today when none is
  given, and returns the first pair, in the order of the days and within a day of the
  times from the start of the working hours in steps of the appointment duration up to
  but excluding their end, for which \<^verbatim>\<open>is_available\<close> holds; it returns none when
  no pair of the 30 days is available; and a pair it returns is valid for
  \<^verbatim>\<open>_is_valid_datetime\<close>.
\<close>

theorem next_available_slot_scan:
  "get_next_available_slot now st dopt
     = (case strptime_date (case dopt of None \<Rightarrow> strftime_date now
                            | Some d \<Rightarrow> if d = [] then strftime_date now else d) of
          Inl e \<Rightarrow> None
        | Inr start \<Rightarrow>
            find (\<lambda>p. is_available now st (fst p) (snd p)) (scan_order 30 start))
   \<and> (get_next_available_slot now st dopt = Some (d, t)
        \<longrightarrow> is_valid_datetime now d t = Inr True)"
proof -
  have eq: "get_next_available_slot now st dopt
     = (case strptime_date (case dopt of None \<Rightarrow> strftime_date now
                            | Some d \<Rightarrow> if d = [] then strftime_date now else d) of
          Inl e \<Rightarrow> None
        | Inr start \<Rightarrow>
            find (\<lambda>p. is_available now st (fst p) (snd p)) (scan_order 30 start))"
    by (simp add: get_next_available_slot_def Let_def scan_days_find [symmetric]
        split: sum.splits)
  have "is_valid_datetime now d t = Inr True"
    if "get_next_available_slot now st dopt = Some (d, t)"
  proof -
    from that eq obtain start where
      "find (\<lambda>p. is_available now st (fst p) (snd p)) (scan_order 30 start) = Some (d, t)"
      by (auto split: sum.splits)
    from find_holds [OF this] have "is_available now st d t"
      by simp
    then show ?thesis
      by (auto simp: is_available_def split: sum.splits if_splits)
  qed
  with eq show ?thesis by blast
qed

theorem next_available_slot_scan_witness:
  "get_next_available_slot example_now example_occupied (Some ''2025-01-04'')
     = Some (''2025-01-06'', ''09:30'') \<and>
   is_valid_datetime example_now ''2025-01-06'' ''09:30'' = Inr True"
  using next_available_slot_scan [of example_now example_occupied "Some ''2025-01-04''"
      "''2025-01-06''" "''09:30''"] example_next_slot
  by blast

end
